theory Spec2Isabelle
  imports Complex_Main
begin

section \<open>Conventions\<close>

text \<open>
  The engine is \<^verbatim>\<open>src/components/GameEngine.tsx\<close>; its data types are in
  \<^verbatim>\<open>src/types.ts\<close> and its constants in \<^verbatim>\<open>src/constants.ts\<close>.

  A JavaScript \<^verbatim>\<open>number\<close> is modelled as an exact \<^typ>\<open>real\<close>; the counters
  that only ever hold integers (score, coins, frame count, roll timer, lanes of objects)
  are \<^typ>\<open>int\<close>.  Rounding of IEEE doubles is therefore outside the model: the
  theorems below are about the comparisons and the control flow of the code.

  The React refs (\<^verbatim>\<open>playerRef\<close>, \<^verbatim>\<open>objectsRef\<close>, ...) are the fields of
  one record that every operation takes and returns.  The host callbacks
  (\<^verbatim>\<open>onScoreUpdate\<close>, \<^verbatim>\<open>onCoinsUpdate\<close>, \<^verbatim>\<open>onGameOver\<close>) are modelled
  by the list of signals an operation emits, in the order of the calls.
  \<^verbatim>\<open>Math.random()\<close> and \<^verbatim>\<open>Date.now()\<close> are inputs.
\<close>

section \<open>constants.ts\<close>

definition GRAVITY :: real where "GRAVITY = 0.8"

definition JUMP_FORCE :: real where "JUMP_FORCE = 18"

definition LANE_SPEED :: real where "LANE_SPEED = 0.2"

definition GAME_SPEED_START :: real where "GAME_SPEED_START = 20"

definition GAME_SPEED_MAX :: real where "GAME_SPEED_MAX = 60"

definition TRACK_WIDTH :: real where "TRACK_WIDTH = 500"

definition HORIZON_Y :: real where "HORIZON_Y = 250"

section \<open>types.ts\<close>

datatype GameState = MENU | PLAYING | PAUSED | GAME_OVER

text \<open>The numeric enum \<^verbatim>\<open>Lane\<close>: the code does arithmetic on its values.\<close>

type_synonym Lane = int

definition LEFT :: Lane where "LEFT = - 1"

definition CENTER :: Lane where "CENTER = 0"

definition RIGHT :: Lane where "RIGHT = 1"

text \<open>\<^verbatim>\<open>ObstacleType | 'COIN'\<close>, the type of \<^verbatim>\<open>GameObject.type\<close>.\<close>

datatype ObjType = TRAIN | BARRIER_LOW | BARRIER_HIGH | COIN

record Player =
  lane :: real
  targetLane :: Lane
  y :: real
  dy :: real
  isJumping :: bool
  isRolling :: bool
  rollTimer :: int

text \<open>
  \<^verbatim>\<open>GameObject\<close>.  Its fields \<^verbatim>\<open>id\<close>, \<^verbatim>\<open>lane\<close> and \<^verbatim>\<open>type\<close> are
  \<open>oid\<close>, \<open>olane\<close> and \<open>otype\<close> here (\<open>id\<close> is HOL's identity, \<open>lane\<close> is the
  player's field).
\<close>

record GameObject =
  oid :: real
  olane :: Lane
  z :: real
  otype :: ObjType
  active :: bool

text \<open>\<^verbatim>\<open>GameStats\<close>, the payload of \<^verbatim>\<open>onGameOver\<close>.\<close>

record GameStats =
  score :: int
  coins :: int
  distance :: int
  highScore :: int

datatype Signal = OnScoreUpdate int | OnCoinsUpdate int | OnGameOver GameStats

text \<open>The refs of the component.\<close>

record World =
  playerRef :: Player
  objectsRef :: "GameObject list"
  speedRef :: real
  scoreRef :: int
  coinsRef :: int
  distanceRef :: real
  frameCountRef :: int

section \<open>project3D\<close>

text \<open>
  The result \<^verbatim>\<open>{ x, y, scale, visible }\<close>; \<open>x\<close> and \<open>y\<close> are \<open>screenX\<close> and
  \<open>screenY\<close> here (\<open>y\<close> is the player's field).
\<close>

record Projected =
  screenX :: real
  screenY :: real
  scale :: real
  visible :: bool

definition cameraHeight :: real where "cameraHeight = 400"

definition cameraZ :: real where "cameraZ = - 1000"

definition perspective :: real where "perspective = 800"

definition project3D :: "real \<Rightarrow> real \<Rightarrow> real \<Rightarrow> real \<Rightarrow> real \<Rightarrow> Projected" where
  "project3D x0 y0 z0 width height =
     (let relZ = z0 - cameraZ in
      if relZ \<le> 0 then \<lparr>screenX = 0, screenY = 0, scale = 0, visible = False\<rparr>
      else
        let scale0 = perspective / relZ;
            projectedX = width / 2 + x0 * scale0;
            projectedY = HORIZON_Y + (cameraHeight - y0) * scale0
        in \<lparr>screenX = projectedX, screenY = projectedY, scale = scale0, visible = True\<rparr>)"

definition getLaneX :: "real \<Rightarrow> real" where
  "getLaneX l = l * (TRACK_WIDTH / 2)"

section \<open>spawnObject\<close>

text \<open>
  The random draws of one call of \<^verbatim>\<open>spawnObject\<close>, in the order of the calls:
  the lane draw, \<^verbatim>\<open>r\<close>, \<^verbatim>\<open>obsR\<close> (read only when \<^verbatim>\<open>r > 0.3\<close>), and the
  value of \<^verbatim>\<open>Date.now() + Math.random()\<close> for the \<open>i\<close>-th object pushed.
  \<^verbatim>\<open>Math.random()\<close> lies in \<open>[0, 1)\<close>, so the lane index
  \<^verbatim>\<open>Math.floor(Math.random() * lanes.length)\<close> is 0, 1 or 2.
\<close>

record Rand =
  rndLane :: real
  rndR :: real
  rndObsR :: real
  rndId :: "nat \<Rightarrow> real"

definition lanes :: "Lane list" where
  "lanes = [LEFT, CENTER, RIGHT]"

definition pickLane :: "Rand \<Rightarrow> Lane" where
  "pickLane rnd = lanes ! nat \<lfloor>rndLane rnd * real (length lanes)\<rfloor>"

definition pickType :: "Rand \<Rightarrow> ObjType" where
  "pickType rnd =
     (if rndR rnd > 0.3 then
        (if rndObsR rnd < 0.4 then TRAIN
         else if rndObsR rnd < 0.7 then BARRIER_LOW
         else BARRIER_HIGH)
      else COIN)"

definition tooClose :: "Lane \<Rightarrow> GameObject list \<Rightarrow> bool" where
  "tooClose l objs = list_ex (\<lambda>ob. olane ob = l \<and> z ob > 2500 \<and> otype ob \<noteq> COIN) objs"

definition coinLine :: "Rand \<Rightarrow> Lane \<Rightarrow> GameObject list" where
  "coinLine rnd l =
     map (\<lambda>i. \<lparr>oid = rndId rnd i, olane = l, z = 3000 + real i * 150,
                otype = COIN, active = True\<rparr>) [0..<5]"

definition spawnObject :: "Rand \<Rightarrow> GameObject list \<Rightarrow> GameObject list" where
  "spawnObject rnd objs =
     (let l = pickLane rnd; ty = pickType rnd in
      if \<not> tooClose l objs then
        (if ty = COIN then objs @ coinLine rnd l
         else objs @ [\<lparr>oid = rndId rnd 0, olane = l, z = 3000, otype = ty, active = True\<rparr>])
      else objs)"

section \<open>update\<close>

subsection \<open>Player physics\<close>

definition laneSmoothing :: "Player \<Rightarrow> Player" where
  "laneSmoothing p = p\<lparr>lane := lane p + (real_of_int (targetLane p) - lane p) * LANE_SPEED\<rparr>"

definition verticalIntegration :: "Player \<Rightarrow> Player" where
  "verticalIntegration p =
     (let p1 = p\<lparr>y := y p + dy p\<rparr> in
      if y p1 > 0 then p1\<lparr>dy := dy p1 - GRAVITY\<rparr>
      else p1\<lparr>y := 0, dy := 0, isJumping := False\<rparr>)"

definition rollStep :: "Player \<Rightarrow> Player" where
  "rollStep p =
     (if isRolling p then
        (let p1 = p\<lparr>rollTimer := rollTimer p - 1\<rparr> in
         if rollTimer p1 \<le> 0 then p1\<lparr>isRolling := False\<rparr> else p1)
      else p)"

definition playerPhysics :: "Player \<Rightarrow> Player" where
  "playerPhysics p = rollStep (verticalIntegration (laneSmoothing p))"

subsection \<open>Object movement and collision\<close>

definition objDepth :: "ObjType \<Rightarrow> real" where
  "objDepth ty = (if ty = TRAIN then 600 else 50)"

definition playerZMin :: real where "playerZMin = - 50"

definition playerZMax :: real where "playerZMax = 50"

definition zOverlap :: "GameObject \<Rightarrow> bool" where
  "zOverlap obj = (playerZMin < z obj + objDepth (otype obj) \<and> playerZMax > z obj)"

definition laneNear :: "Player \<Rightarrow> GameObject \<Rightarrow> bool" where
  "laneNear p obj = (\<bar>lane p - real_of_int (olane obj)\<bar> < 0.6)"

definition isHit :: "Player \<Rightarrow> ObjType \<Rightarrow> bool" where
  "isHit p ty =
     (if ty = TRAIN then y p < 150
      else if ty = BARRIER_LOW then y p < 60
      else if ty = BARRIER_HIGH then \<not> isRolling p
      else False)"

text \<open>
  One iteration of the loop over \<^verbatim>\<open>objectsRef.current\<close>, up to the cleanup test:
  the object as the iteration leaves it, the coin counter, the signals emitted, and
  whether the iteration executed \<^verbatim>\<open>return\<close>.
\<close>

definition processObject ::
  "real \<Rightarrow> Player \<Rightarrow> int \<Rightarrow> real \<Rightarrow> int \<Rightarrow> GameObject
     \<Rightarrow> GameObject \<times> int \<times> Signal list \<times> bool" where
  "processObject speed p sc dst cns obj =
     (let obj1 = obj\<lparr>z := z obj - speed\<rparr> in
      if active obj1 \<and> zOverlap obj1 then
        (if laneNear p obj1 then
           (if otype obj1 = COIN then
              (obj1\<lparr>active := False\<rparr>, cns + 1, [OnCoinsUpdate (cns + 1)], False)
            else if isHit p (otype obj1) then
              (obj1, cns,
               [OnGameOver \<lparr>score = sc, coins = cns, distance = \<lfloor>dst\<rfloor>, highScore = 0\<rparr>],
               True)
            else (obj1, cns, [], False))
         else (obj1, cns, [], False))
      else (obj1, cns, [], False))"

definition keepObject :: "GameObject \<Rightarrow> bool" where
  "keepObject obj = (z obj + objDepth (otype obj) > - 500)"

text \<open>
  The loop.  The objects are mutated in place, so the result holds the array as the loop
  leaves it (every visited object moved, the others untouched) beside
  \<^verbatim>\<open>activeObjects\<close>: on \<^verbatim>\<open>return\<close> the array stays in \<^verbatim>\<open>objectsRef\<close>, at the
  end of the loop \<^verbatim>\<open>activeObjects\<close> replaces it.
\<close>

record LoopResult =
  returned :: bool
  coinsOut :: int
  signals :: "Signal list"
  array :: "GameObject list"
  activeObjects :: "GameObject list"

fun objectLoop ::
  "real \<Rightarrow> Player \<Rightarrow> int \<Rightarrow> real \<Rightarrow> int \<Rightarrow> GameObject list \<Rightarrow> LoopResult" where
  "objectLoop speed p sc dst cns [] =
     \<lparr>returned = False, coinsOut = cns, signals = [], array = [], activeObjects = []\<rparr>"
| "objectLoop speed p sc dst cns (obj # rest) =
     (case processObject speed p sc dst cns obj of
        (obj1, cns1, sigs, ret) \<Rightarrow>
          if ret then
            \<lparr>returned = True, coinsOut = cns1, signals = sigs, array = obj1 # rest,
             activeObjects = []\<rparr>
          else
            (let r = objectLoop speed p sc dst cns1 rest in
             \<lparr>returned = returned r, coinsOut = coinsOut r, signals = sigs @ signals r,
              array = obj1 # array r,
              activeObjects = (if keepObject obj1 then obj1 # activeObjects r
                               else activeObjects r)\<rparr>))"

subsection \<open>The step\<close>

text \<open>
  \<open>advance\<close> is \<^verbatim>\<open>update\<close> from the speed increase to the roll timer (everything
  before the loop over the objects), \<open>collisions\<close> is the loop and the assignment after it.
\<close>

definition spawnRate :: "real \<Rightarrow> int" where
  "spawnRate speed = max 15 (60 - \<lfloor>speed * 0.8\<rfloor>)"

definition advance :: "Rand \<Rightarrow> World \<Rightarrow> World" where
  "advance rnd w =
     (let speed1 = min GAME_SPEED_MAX (speedRef w + 0.015);
          dst1 = distanceRef w + speed1 / 10;
          score1 = scoreRef w + \<lfloor>speed1 / 10\<rfloor>;
          frame1 = frameCountRef w + 1;
          objs1 = (if frame1 mod spawnRate speed1 = 0 then spawnObject rnd (objectsRef w)
                   else objectsRef w)
      in w\<lparr>playerRef := playerPhysics (playerRef w), objectsRef := objs1,
            speedRef := speed1, scoreRef := score1, distanceRef := dst1,
            frameCountRef := frame1\<rparr>)"

definition collide :: "World \<Rightarrow> LoopResult" where
  "collide w =
     objectLoop (speedRef w) (playerRef w) (scoreRef w) (distanceRef w) (coinsRef w)
       (objectsRef w)"

definition collisions :: "World \<Rightarrow> World \<times> Signal list" where
  "collisions w =
     (let r = collide w in
      (w\<lparr>coinsRef := coinsOut r,
          objectsRef := (if returned r then array r else activeObjects r)\<rparr>,
       signals r))"

definition update :: "GameState \<Rightarrow> Rand \<Rightarrow> World \<Rightarrow> World \<times> Signal list" where
  "update gameState rnd w =
     (if gameState \<noteq> PLAYING then (w, [])
      else
        (let w1 = advance rnd w in
         case collisions w1 of (w2, sigs) \<Rightarrow> (w2, OnScoreUpdate (scoreRef w1) # sigs)))"

section \<open>Controls and reset\<close>

definition jump :: "Player \<Rightarrow> Player" where
  "jump p =
     (if \<not> isJumping p \<and> \<not> isRolling p then p\<lparr>dy := JUMP_FORCE, isJumping := True\<rparr>
      else p)"

definition duck :: "Player \<Rightarrow> Player" where
  "duck p =
     (if \<not> isRolling p \<and> \<not> isJumping p then p\<lparr>isRolling := True, rollTimer := 35\<rparr>
      else if isJumping p then p\<lparr>dy := - JUMP_FORCE * 1.5\<rparr>
      else p)"

definition laneLeft :: "Player \<Rightarrow> Player" where
  "laneLeft p = (if targetLane p > LEFT then p\<lparr>targetLane := targetLane p - 1\<rparr> else p)"

definition laneRight :: "Player \<Rightarrow> Player" where
  "laneRight p = (if targetLane p < RIGHT then p\<lparr>targetLane := targetLane p + 1\<rparr> else p)"

definition handleKeyDown :: "GameState \<Rightarrow> string \<Rightarrow> Player \<Rightarrow> Player" where
  "handleKeyDown gameState key p =
     (if gameState \<noteq> PLAYING then p
      else if key = ''ArrowLeft'' \<or> key = ''a'' then laneLeft p
      else if key = ''ArrowRight'' \<or> key = ''d'' then laneRight p
      else if key = ''ArrowUp'' \<or> key = ''w'' \<or> key = '' '' then jump p
      else if key = ''ArrowDown'' \<or> key = ''s'' then duck p
      else p)"

text \<open>
  \<^verbatim>\<open>handleTouchEnd\<close>; \<open>dx\<close> and \<open>dy\<close> are the differences between the end and the
  start of the touch.
\<close>

definition handleTouchEnd :: "GameState \<Rightarrow> real \<Rightarrow> real \<Rightarrow> Player \<Rightarrow> Player" where
  "handleTouchEnd gameState dx0 dy0 p =
     (if gameState \<noteq> PLAYING then p
      else if \<bar>dx0\<bar> > \<bar>dy0\<bar> then
        (if \<bar>dx0\<bar> > 30 then
           (if dx0 > 0 \<and> targetLane p < RIGHT then p\<lparr>targetLane := targetLane p + 1\<rparr>
            else if dx0 < 0 \<and> targetLane p > LEFT then p\<lparr>targetLane := targetLane p - 1\<rparr>
            else p)
         else p)
      else
        (if \<bar>dy0\<bar> > 30 then
           (if dy0 < 0 \<and> \<not> isJumping p \<and> \<not> isRolling p then
              p\<lparr>dy := JUMP_FORCE, isJumping := True\<rparr>
            else if dy0 > 0 then duck p
            else p)
         else p))"

definition initialPlayer :: Player where
  "initialPlayer =
     \<lparr>lane = 0, targetLane = CENTER, y = 0, dy = 0, isJumping = False, isRolling = False,
      rollTimer = 0\<rparr>"

definition initialWorld :: World where
  "initialWorld =
     \<lparr>playerRef = initialPlayer, objectsRef = [], speedRef = GAME_SPEED_START, scoreRef = 0,
      coinsRef = 0, distanceRef = 0, frameCountRef = 0\<rparr>"

text \<open>
  What happens to the component during one run, between two resets: a key press, the end
  of a touch, or a frame of the animation loop (which calls \<^verbatim>\<open>update\<close>).  Each
  carries the \<^verbatim>\<open>gameState\<close> prop of the moment, which the host owns.  The reset on
  entering \<^verbatim>\<open>PLAYING\<close> puts the refs back to \<open>initialWorld\<close>, so a run starts there.
\<close>

datatype Input =
  KeyDown GameState string
| TouchEnd GameState real real
| Frame GameState Rand

fun stepInput :: "Input \<Rightarrow> World \<Rightarrow> World \<times> Signal list" where
  "stepInput (KeyDown gs key) w = (w\<lparr>playerRef := handleKeyDown gs key (playerRef w)\<rparr>, [])"
| "stepInput (TouchEnd gs dx0 dy0) w =
     (w\<lparr>playerRef := handleTouchEnd gs dx0 dy0 (playerRef w)\<rparr>, [])"
| "stepInput (Frame gs rnd) w = update gs rnd w"

fun run :: "Input list \<Rightarrow> World \<Rightarrow> World \<times> Signal list" where
  "run [] w = (w, [])"
| "run (i # rest) w =
     (case stepInput i w of
        (w1, s1) \<Rightarrow> (case run rest w1 of (w2, s2) \<Rightarrow> (w2, s1 @ s2)))"

section \<open>The renderer\<close>

text \<open>
  The frame a call of \<^verbatim>\<open>draw\<close> paints is modelled by the calls it makes on the 2D
  context and the properties it sets, in order.
\<close>

datatype Style = Color string | LinearGradient real real real real "(real \<times> string) list"

datatype CanvasOp =
  SetFillStyle Style
| SetStrokeStyle string
| SetLineWidth real
| SetShadowBlur real
| SetShadowColor string
| FillRect real real real real
| StrokeRect real real real real
| BeginPath
| ClosePath
| MoveTo real real
| LineTo real real
| ArcTo real real real real real
| Ellipse real real real real real real real
| Fill
| Stroke

text \<open>\<^verbatim>\<open>COLORS\<close> of constants.ts.\<close>

record Palette =
  sky :: "string list"
  ground :: string
  grid :: string
  track :: string
  train :: string
  trainSide :: string
  trainTop :: string
  trainWindow :: string
  barrier :: string
  barrierSide :: string
  barrierTop :: string
  coin :: string
  player :: string
  playerShadow :: string

definition COLORS :: Palette where
  "COLORS =
     \<lparr>sky = [''#020617'', ''#1e1b4b''], ground = ''#0f172a'',
      grid = ''rgba(236, 72, 153, 0.3)'', track = ''#334155'', train = ''#dc2626'',
      trainSide = ''#991b1b'', trainTop = ''#ef4444'', trainWindow = ''#fca5a5'',
      barrier = ''#fb923c'', barrierSide = ''#c2410c'', barrierTop = ''#fdba74'',
      coin = ''#facc15'', player = ''#22d3ee'', playerShadow = ''rgba(0,0,0,0.6)''\<rparr>"

text \<open>
  The \<^verbatim>\<open>colors\<close> argument of \<^verbatim>\<open>drawCube\<close>; its field \<^verbatim>\<open>top\<close> is \<open>topFace\<close>
  here (\<open>top\<close> is HOL's greatest element).
\<close>

record FaceColors =
  front :: string
  topFace :: string
  side :: string

definition drawCube ::
  "real \<Rightarrow> real \<Rightarrow> real \<Rightarrow> real \<Rightarrow> real \<Rightarrow> real \<Rightarrow> real \<Rightarrow> real \<Rightarrow> FaceColors \<Rightarrow> CanvasOp list" where
  "drawCube width height x0 y0 z0 w h d colors =
     (let ftl = project3D (x0 - w / 2) (y0 + h) z0 width height;
          ftr = project3D (x0 + w / 2) (y0 + h) z0 width height;
          fbr = project3D (x0 + w / 2) y0 z0 width height;
          fbl = project3D (x0 - w / 2) y0 z0 width height;
          btl = project3D (x0 - w / 2) (y0 + h) (z0 + d) width height;
          btr = project3D (x0 + w / 2) (y0 + h) (z0 + d) width height
      in
      if \<not> visible ftl \<or> \<not> visible fbr then []
      else
        [SetFillStyle (Color (topFace colors)), BeginPath,
         MoveTo (screenX ftl) (screenY ftl), LineTo (screenX ftr) (screenY ftr),
         LineTo (screenX btr) (screenY btr), LineTo (screenX btl) (screenY btl),
         ClosePath, Fill,
         SetFillStyle (Color (side colors)), BeginPath] @
        (if x0 < 0 then
           (let bbr = project3D (x0 + w / 2) y0 (z0 + d) width height in
            [MoveTo (screenX ftr) (screenY ftr), LineTo (screenX btr) (screenY btr),
             LineTo (screenX bbr) (screenY bbr), LineTo (screenX fbr) (screenY fbr)])
         else
           (let bbl = project3D (x0 - w / 2) y0 (z0 + d) width height in
            [MoveTo (screenX ftl) (screenY ftl), LineTo (screenX btl) (screenY btl),
             LineTo (screenX bbl) (screenY bbl), LineTo (screenX fbl) (screenY fbl)])) @
        [ClosePath, Fill,
         SetFillStyle (Color (front colors)),
         FillRect (screenX ftl) (screenY ftl) (screenX ftr - screenX ftl) (screenY fbl - screenY ftl),
         SetStrokeStyle ''rgba(0,0,0,0.2)'', SetLineWidth 1,
         StrokeRect (screenX ftl) (screenY ftl) (screenX ftr - screenX ftl)
           (screenY fbl - screenY ftl)])"

text \<open>The remainder operator \<^verbatim>\<open>%\<close>, whose result has the sign of the dividend.\<close>

definition jsRem :: "real \<Rightarrow> real \<Rightarrow> real" where
  "jsRem a b =
     (if 0 \<le> a / b then a - b * of_int \<lfloor>a / b\<rfloor> else a - b * of_int \<lceil>a / b\<rceil>)"

definition drawSky :: "real \<Rightarrow> real \<Rightarrow> CanvasOp list" where
  "drawSky width height =
     [SetFillStyle (LinearGradient 0 0 0 height [(0, sky COLORS ! 0), (1, sky COLORS ! 1)]),
      FillRect 0 0 width height,
      SetShadowBlur 20, SetShadowColor ''#f472b6'', SetFillStyle (Color ''#fbcfe8''),
      BeginPath, ArcTo (width / 2) (HORIZON_Y - 80) 120 0 (pi * 2), Fill, SetShadowBlur 0]"

definition verticalLine :: "real \<Rightarrow> real \<Rightarrow> int \<Rightarrow> CanvasOp list" where
  "verticalLine width height i =
     (let x0 = real_of_int i * (TRACK_WIDTH / 2);
          far = project3D x0 0 4000 width height;
          near = project3D x0 0 0 width height
      in [MoveTo (screenX far) (screenY far), LineTo (screenX near) (screenY near)])"

definition horizontalLine :: "real \<Rightarrow> real \<Rightarrow> real \<Rightarrow> real \<Rightarrow> CanvasOp list" where
  "horizontalLine width height offset z0 =
     (let drawZ = z0 - offset in
      if drawZ < 0 then []
      else
        (let pLeft = project3D (- 2000) 0 drawZ width height;
             pRight = project3D 2000 0 drawZ width height
         in [MoveTo (screenX pLeft) (screenY pLeft), LineTo (screenX pRight) (screenY pRight)]))"

definition drawFloor :: "real \<Rightarrow> real \<Rightarrow> real \<Rightarrow> CanvasOp list" where
  "drawFloor width height dst =
     [SetFillStyle (Color (ground COLORS)), FillRect 0 HORIZON_Y width (height - HORIZON_Y),
      SetStrokeStyle (grid COLORS), SetLineWidth 2, BeginPath] @
     concat (map (verticalLine width height) [- 5..5]) @
     (let gridSpacing = 200; offset = jsRem dst gridSpacing in
      concat (map (\<lambda>k. horizontalLine width height offset (4000 - real k * gridSpacing))
                [0..<21])) @
     [Stroke]"

text \<open>
  The body of the \<^verbatim>\<open>forEach\<close> over the sorted objects, for one object; \<open>now\<close> is
  what \<^verbatim>\<open>Date.now()\<close> returns when the body reads it, which it does for a coin only.
\<close>

definition drawObject :: "real \<Rightarrow> real \<Rightarrow> real \<Rightarrow> GameObject \<Rightarrow> CanvasOp list" where
  "drawObject width height now obj =
     (let x0 = getLaneX (real_of_int (olane obj)) in
      if otype obj = COIN then
        (let proj = project3D x0 50 (z obj) width height;
             size0 = 60 * scale proj;
             spin = sin (now / 100);
             w = size0 * \<bar>spin\<bar>
         in [SetFillStyle (Color (coin COLORS)), BeginPath,
             Ellipse (screenX proj) (screenY proj) (w / 2) (size0 / 2) 0 0 (pi * 2), Fill,
             SetFillStyle (Color ''#fff''), BeginPath,
             Ellipse (screenX proj) (screenY proj) (w / 4) (size0 / 4) 0 0 (pi * 2), Fill])
      else if otype obj = TRAIN then
        drawCube width height x0 0 (z obj) 160 160 600
          \<lparr>front = train COLORS, topFace = trainTop COLORS, side = trainSide COLORS\<rparr> @
        (let frontZ = z obj;
             pLeftLight = project3D (x0 - 40) 40 (frontZ - 1) width height;
             pRightLight = project3D (x0 + 40) 40 (frontZ - 1) width height;
             lSize = 20 * scale pLeftLight
         in [SetFillStyle (Color ''#fef08a''), SetShadowColor ''#fef08a'', SetShadowBlur 10,
             BeginPath,
             ArcTo (screenX pLeftLight) (screenY pLeftLight) lSize 0 (pi * 2),
             ArcTo (screenX pRightLight) (screenY pRightLight) lSize 0 (pi * 2),
             Fill, SetShadowBlur 0])
      else if otype obj = BARRIER_LOW then
        drawCube width height x0 0 (z obj) 160 60 20
          \<lparr>front = barrier COLORS, topFace = barrierTop COLORS, side = barrierSide COLORS\<rparr>
      else if otype obj = BARRIER_HIGH then
        drawCube width height x0 0 (z obj) 160 180 20
          \<lparr>front = barrier COLORS, topFace = barrierTop COLORS, side = barrierSide COLORS\<rparr> @
        (let archP = project3D x0 0 (z obj - 1) width height;
             archW = 80 * scale archP;
             archH = 80 * scale archP
         in [SetFillStyle (Color (ground COLORS)),
             FillRect (screenX archP - archW / 2) (screenY archP - archH) archW archH])
      else [])"

text \<open>
  The \<^verbatim>\<open>forEach\<close>: \<open>clock k\<close> is the \<open>k\<close>-th reading of \<^verbatim>\<open>Date.now()\<close> of the
  call of \<^verbatim>\<open>draw\<close>; an inactive object is skipped.
\<close>

fun drawObjects :: "real \<Rightarrow> real \<Rightarrow> (nat \<Rightarrow> real) \<Rightarrow> nat \<Rightarrow> GameObject list \<Rightarrow> CanvasOp list" where
  "drawObjects width height clock k [] = []"
| "drawObjects width height clock k (obj # rest) =
     (if \<not> active obj then drawObjects width height clock k rest
      else if otype obj = COIN then
        drawObject width height (clock k) obj @ drawObjects width height clock (Suc k) rest
      else drawObject width height (clock k) obj @ drawObjects width height clock k rest)"

definition drawPlayer :: "real \<Rightarrow> real \<Rightarrow> Player \<Rightarrow> CanvasOp list" where
  "drawPlayer width height p =
     (let x0 = getLaneX (lane p);
          y0 = y p;
          shadowP = project3D x0 0 0 width height;
          shadowSize = 80 * scale shadowP;
          pWidth = 50;
          pHeight = (if isRolling p then 50 else 100);
          pColor = player COLORS
      in [SetFillStyle (Color (playerShadow COLORS)), BeginPath,
          Ellipse (screenX shadowP) (screenY shadowP) (shadowSize / 2) (shadowSize / 5) 0 0
            (pi * 2),
          Fill] @
         drawCube width height x0 y0 0 pWidth pHeight 30
           \<lparr>front = pColor, topFace = ''#67e8f9'', side = ''#0891b2''\<rparr> @
         (if isJumping p then
            (let pPos = project3D x0 y0 0 width height in
             [SetShadowColor ''#ec4899'', SetShadowBlur 20, SetFillStyle (Color ''#ec4899''),
              FillRect (screenX pPos - 30 * scale pPos) (screenY pPos) (60 * scale pPos)
                (10 * scale pPos),
              SetShadowBlur 0])
          else []))"

text \<open>
  \<^verbatim>\<open>draw\<close>, on a surface of the given size.  The objects are drawn from a sorted copy
  of the array (\<^verbatim>\<open>sort\<close> is stable); the refs are returned as the call leaves them.
\<close>

definition draw ::
  "GameState \<Rightarrow> real \<Rightarrow> real \<Rightarrow> (nat \<Rightarrow> real) \<Rightarrow> World \<Rightarrow> CanvasOp list \<times> World" where
  "draw gameState width height clock w =
     (let drawOrder = sort_key (\<lambda>ob. - z ob) (objectsRef w) in
      (drawSky width height @
       drawFloor width height (distanceRef w) @
       drawObjects width height clock 0 drawOrder @
       (if gameState = PLAYING then drawPlayer width height (playerRef w) else []),
       w))"

section \<open>Notions used in the statements\<close>

subsection \<open>Signals\<close>

fun isGameOver :: "Signal \<Rightarrow> bool" where
  "isGameOver (OnGameOver st) = True"
| "isGameOver (OnScoreUpdate n) = False"
| "isGameOver (OnCoinsUpdate n) = False"

fun isCoinsUpdate :: "Signal \<Rightarrow> bool" where
  "isCoinsUpdate (OnCoinsUpdate n) = True"
| "isCoinsUpdate (OnScoreUpdate n) = False"
| "isCoinsUpdate (OnGameOver st) = False"

text \<open>The call of \<^verbatim>\<open>onGameOver\<close> in \<^verbatim>\<open>update\<close>, on the refs of the moment.\<close>

definition gameOverSignal :: "World \<Rightarrow> Signal" where
  "gameOverSignal w =
     OnGameOver \<lparr>score = scoreRef w, coins = coinsRef w, distance = \<lfloor>distanceRef w\<rfloor>,
                 highScore = 0\<rparr>"

text \<open>A signal with \<open>k\<close> more coins counted.\<close>

fun shiftSignal :: "int \<Rightarrow> Signal \<Rightarrow> Signal" where
  "shiftSignal k (OnCoinsUpdate n) = OnCoinsUpdate (n + k)"
| "shiftSignal k (OnGameOver st) = OnGameOver (st\<lparr>coins := coins st + k\<rparr>)"
| "shiftSignal k (OnScoreUpdate n) = OnScoreUpdate n"

text \<open>The coins-changed signals for the coins number \<open>m + 1\<close> to \<open>n\<close> after a count of \<open>c\<close>.\<close>

definition coinSignals :: "int \<Rightarrow> nat \<Rightarrow> nat \<Rightarrow> Signal list" where
  "coinSignals c m n = map (\<lambda>j. OnCoinsUpdate (c + int j)) [Suc m..<Suc n]"

subsection \<open>The player\<close>

definition exclusive :: "Player \<Rightarrow> bool" where
  "exclusive p = (\<not> (isJumping p \<and> isRolling p))"

subsection \<open>Coins on their way to the player\<close>

text \<open>After travelling \<open>t\<close>, the object's depth interval overlaps the player's.\<close>

definition inWindow :: "real \<Rightarrow> GameObject \<Rightarrow> bool" where
  "inWindow t obj = zOverlap (obj\<lparr>z := z obj - t\<rparr>)"

text \<open>
  A coin of lane \<open>l\<close> that has not been reached (its depth is 50 or more) and is active;
  and one that is active exactly when it has not been reached.
\<close>

definition fresh :: "Lane \<Rightarrow> GameObject \<Rightarrow> bool" where
  "fresh l obj = (otype obj = COIN \<and> olane obj = l \<and> active obj \<and> 50 \<le> z obj)"

definition waiting :: "Lane \<Rightarrow> GameObject \<Rightarrow> bool" where
  "waiting l obj = (otype obj = COIN \<and> olane obj = l \<and> active obj = (50 \<le> z obj))"

text \<open>An object that has come nearer by \<open>s\<close>, picked up if that brought it within reach.\<close>

definition nearer :: "real \<Rightarrow> GameObject \<Rightarrow> GameObject" where
  "nearer s obj = obj\<lparr>z := z obj - s, active := (50 \<le> z obj - s)\<rparr>"

text \<open>
  How many of the objects are within reach after travelling \<open>s\<close>, and how many come
  within reach by travelling \<open>s\<close>.
\<close>

definition reached :: "real \<Rightarrow> GameObject list \<Rightarrow> nat" where
  "reached s objs = length (filter (\<lambda>ob. z ob - s < 50) objs)"

definition crossing :: "real \<Rightarrow> GameObject list \<Rightarrow> nat" where
  "crossing s objs = length (filter (\<lambda>ob. 50 \<le> z ob \<and> z ob - s < 50) objs)"

text \<open>What the live set holds of a line of coins that has travelled \<open>t\<close>.\<close>

definition lineAt :: "GameObject list \<Rightarrow> real \<Rightarrow> GameObject list" where
  "lineAt line t = filter keepObject (map (nearer t) line)"

text \<open>
  \<open>wL\<close> is \<open>w0\<close> with the line \<open>line\<close>, which has travelled \<open>t\<close>, somewhere in the
  live set, and with the coins of the line that have been reached.
\<close>

definition lineIn :: "GameObject list \<Rightarrow> real \<Rightarrow> World \<Rightarrow> World \<Rightarrow> bool" where
  "lineIn line t wL w0 =
     (\<exists>A B. objectsRef w0 = A @ B \<and>
        wL = w0\<lparr>coinsRef := coinsRef w0 + int (reached t line),
                objectsRef := A @ lineAt line t @ B\<rparr>)"

text \<open>What a call of \<^verbatim>\<open>spawnObject\<close> pushes.\<close>

definition spawned :: "Rand \<Rightarrow> GameObject list \<Rightarrow> GameObject list" where
  "spawned rnd objs = drop (length objs) (spawnObject rnd objs)"

subsection \<open>A line of coins in a run\<close>

text \<open>
  The distance the objects travel during the inputs: the speed of every frame in the
  playing state.
\<close>

fun travel :: "Input list \<Rightarrow> World \<Rightarrow> real" where
  "travel [] w = 0"
| "travel (Frame gs rnd # rest) w =
     (if gs = PLAYING then speedRef (advance rnd w) else 0)
       + travel rest (fst (update gs rnd w))"
| "travel (i # rest) w = travel rest (fst (stepInput i w))"

text \<open>
  Through the inputs the player keeps to lane \<open>l\<close> while an object of \<open>line\<close> is in
  reach: \<open>t\<close> is the distance the line has travelled before the inputs, and in every frame
  in the playing state after whose movement an object of the line overlaps the player's
  depth interval, the player (after the frame's physics) is within the lane tolerance of
  \<open>l\<close>.
\<close>

fun keepsLane :: "Lane \<Rightarrow> GameObject list \<Rightarrow> real \<Rightarrow> Input list \<Rightarrow> World \<Rightarrow> bool" where
  "keepsLane l line t [] w = True"
| "keepsLane l line t (Frame gs rnd # rest) w =
     (if gs = PLAYING then
        (list_ex (inWindow (t + speedRef (advance rnd w))) line \<longrightarrow>
           \<bar>lane (playerRef (advance rnd w)) - real_of_int l\<bar> < 0.6) \<and>
        keepsLane l line (t + speedRef (advance rnd w)) rest (fst (update gs rnd w))
      else keepsLane l line t rest w)"
| "keepsLane l line t (i # rest) w = keepsLane l line t rest (fst (stepInput i w))"

text \<open>
  The stronger condition: in every frame in the playing state the player (after the
  frame's physics) is within the lane tolerance of \<open>l\<close>.
\<close>

fun inLane :: "Lane \<Rightarrow> Input list \<Rightarrow> World \<Rightarrow> bool" where
  "inLane l [] w = True"
| "inLane l (Frame gs rnd # rest) w =
     (if gs = PLAYING then
        \<bar>lane (playerRef (advance rnd w)) - real_of_int l\<bar> < 0.6 \<and>
        inLane l rest (fst (update gs rnd w))
      else inLane l rest w)"
| "inLane l (i # rest) w = inLane l rest (fst (stepInput i w))"

text \<open>
  The part of a step before the loop, had the spawner placed nothing; and the step and the
  inputs after it, run from there.
\<close>

definition withoutSpawn :: "Rand \<Rightarrow> World \<Rightarrow> World" where
  "withoutSpawn rnd w = (advance rnd w)\<lparr>objectsRef := objectsRef w\<rparr>"

definition runUnspawned :: "Rand \<Rightarrow> Input list \<Rightarrow> World \<Rightarrow> World \<times> Signal list" where
  "runUnspawned rnd inputs w =
     (case collisions (withoutSpawn rnd w) of
        (w2, s1) \<Rightarrow>
          (case run inputs w2 of
             (w3, s2) \<Rightarrow> (w3, OnScoreUpdate (scoreRef (withoutSpawn rnd w)) # s1 @ s2)))"

subsection \<open>A line of coins on its own\<close>

text \<open>
  A frame of the pickup scenario: the loop of \<^verbatim>\<open>update\<close> and the assignment after it,
  run at a given speed with a given player; and one frame after the other.
\<close>

definition frame :: "real \<times> Player \<Rightarrow> World \<Rightarrow> World \<times> Signal list" where
  "frame f w = collisions (w\<lparr>speedRef := fst f, playerRef := snd f\<rparr>)"

fun frames :: "(real \<times> Player) list \<Rightarrow> World \<Rightarrow> World \<times> Signal list" where
  "frames [] w = (w, [])"
| "frames (f # rest) w =
     (case frame f w of
        (w1, s1) \<Rightarrow> (case frames rest w1 of (w2, s2) \<Rightarrow> (w2, s1 @ s2)))"

text \<open>
  The player stays in lane \<open>l\<close> through the overlap windows of the objects \<open>objs\<close>:
  \<open>t\<close> is the distance the objects have travelled before the frames; every frame has a
  speed within the range, and in a frame after which one of the objects overlaps the
  player's depth interval the player is within the lane tolerance of \<open>l\<close>.
\<close>

fun staysInLane :: "Lane \<Rightarrow> GameObject list \<Rightarrow> real \<Rightarrow> (real \<times> Player) list \<Rightarrow> bool" where
  "staysInLane l objs t [] = True"
| "staysInLane l objs t (f # rest) =
     (GAME_SPEED_START \<le> fst f \<and> fst f \<le> GAME_SPEED_MAX \<and>
      (list_ex (inWindow (t + fst f)) objs \<longrightarrow> \<bar>lane (snd f) - real_of_int l\<bar> < 0.6) \<and>
      staysInLane l objs (t + fst f) rest)"

subsection \<open>The clock of the renderer\<close>

text \<open>The active coins: \<^verbatim>\<open>draw\<close> reads the clock once for each.\<close>

definition activeCoins :: "GameObject list \<Rightarrow> GameObject list" where
  "activeCoins objs = filter (\<lambda>ob. active ob \<and> otype ob = COIN) objs"

subsection \<open>Inactive objects\<close>

text \<open>
  The world without the objects whose \<^verbatim>\<open>active\<close> flag is false; and a world in which
  every such object is a coin (the loop of \<^verbatim>\<open>update\<close> clears the flag of coins only).
\<close>

definition live :: "World \<Rightarrow> World" where
  "live w = w\<lparr>objectsRef := filter active (objectsRef w)\<rparr>"

definition coinsSpent :: "World \<Rightarrow> bool" where
  "coinsSpent w = list_all (\<lambda>ob. active ob \<or> otype ob = COIN) (objectsRef w)"

text \<open>
  What the spawner pushes in a step in the playing state, and the number of active coins
  it pushes during the inputs.
\<close>

definition pushed :: "Rand \<Rightarrow> World \<Rightarrow> GameObject list" where
  "pushed rnd w = drop (length (objectsRef w)) (objectsRef (advance rnd w))"

fun coinsPlaced :: "Input list \<Rightarrow> World \<Rightarrow> nat" where
  "coinsPlaced [] w = 0"
| "coinsPlaced (Frame gs rnd # rest) w =
     (if gs = PLAYING then length (activeCoins (pushed rnd w)) else 0)
       + coinsPlaced rest (fst (update gs rnd w))"
| "coinsPlaced (i # rest) w = coinsPlaced rest (fst (stepInput i w))"

section \<open>Sample states\<close>

text \<open>
  Draws of the spawner: a high barrier in the centre lane, a line of coins in the centre
  lane, a line of coins in the left lane.
\<close>

definition sampleRand :: Rand where
  "sampleRand = \<lparr>rndLane = 0.5, rndR = 0.9, rndObsR = 0.9, rndId = (\<lambda>i. real i)\<rparr>"

definition coinRand :: Rand where
  "coinRand = \<lparr>rndLane = 0.5, rndR = 0.1, rndObsR = 0, rndId = (\<lambda>i. real i)\<rparr>"

definition leftRand :: Rand where
  "leftRand = \<lparr>rndLane = 0.1, rndR = 0.1, rndObsR = 0, rndId = (\<lambda>i. real i)\<rparr>"

text \<open>
  Players: one who ducked five frames ago, and the same a third of the way from the centre
  lane to the right lane.
\<close>

definition roller :: Player where
  "roller = initialPlayer\<lparr>isRolling := True, rollTimer := 30\<rparr>"

definition sideswiper :: Player where
  "sideswiper = roller\<lparr>lane := 0.36, targetLane := RIGHT\<rparr>"

text \<open>
  Objects: a train far ahead in the centre lane, a high barrier reaching the player in the
  centre lane, a train passing in the right lane, a coin reaching the player in the centre
  lane, picked up before or still there.
\<close>

definition farTrain :: GameObject where
  "farTrain = \<lparr>oid = 7, olane = CENTER, z = 2600, otype = TRAIN, active = True\<rparr>"

definition lowArch :: GameObject where
  "lowArch = \<lparr>oid = 2, olane = CENTER, z = 40, otype = BARRIER_HIGH, active = True\<rparr>"

definition passingTrain :: GameObject where
  "passingTrain = \<lparr>oid = 1, olane = RIGHT, z = - 300, otype = TRAIN, active = True\<rparr>"

definition spentCoin :: GameObject where
  "spentCoin = \<lparr>oid = 3, olane = CENTER, z = 40, otype = COIN, active = False\<rparr>"

definition freshCoin :: GameObject where
  "freshCoin = \<lparr>oid = 4, olane = CENTER, z = 40, otype = COIN, active = True\<rparr>"

text \<open>
  Worlds: a player coming down fast from a jump; a run in progress with a given player and
  live set; a run at full speed, one frame before the spawner is due, with nothing in the
  live set.
\<close>

definition fallingWorld :: World where
  "fallingWorld = initialWorld\<lparr>playerRef := initialPlayer\<lparr>y := 10, dy := - 27, isJumping := True\<rparr>\<rparr>"

definition midRun :: "Player \<Rightarrow> GameObject list \<Rightarrow> World" where
  "midRun p objs =
     \<lparr>playerRef = p, objectsRef = objs, speedRef = 30, scoreRef = 100, coinsRef = 3,
      distanceRef = 200, frameCountRef = 10\<rparr>"

definition lineStart :: World where
  "lineStart =
     \<lparr>playerRef = initialPlayer, objectsRef = [], speedRef = 60, scoreRef = 0, coinsRef = 0,
      distanceRef = 0, frameCountRef = 14\<rparr>"

text \<open>The same world with one coin of an earlier line still ahead in the centre lane.\<close>

definition aheadCoin :: GameObject where
  "aheadCoin = \<lparr>oid = 5, olane = CENTER, z = 1000, otype = COIN, active = True\<rparr>"

definition coinAhead :: World where
  "coinAhead = lineStart\<lparr>objectsRef := [aheadCoin]\<rparr>"

text \<open>
  A world at full speed whose player stands in the centre lane and whose objects are
  coins; and the same with every object in the left lane.
\<close>

definition calm :: "World \<Rightarrow> bool" where
  "calm w =
     (playerRef w = initialPlayer \<and> speedRef w = 60 \<and>
      list_all (\<lambda>ob. otype ob = COIN) (objectsRef w))"

definition aside :: "World \<Rightarrow> bool" where
  "aside w =
     (playerRef w = initialPlayer \<and> speedRef w = 60 \<and>
      list_all (\<lambda>ob. olane ob = LEFT) (objectsRef w))"

text \<open>A clock that stands still at \<open>t\<close>, and one that advances by one between readings.\<close>

definition steadyClock :: "real \<Rightarrow> nat \<Rightarrow> real" where
  "steadyClock t k = t"

definition tickingClock :: "real \<Rightarrow> nat \<Rightarrow> real" where
  "tickingClock t k = t + real k"

section \<open>Basic facts about one step\<close>

lemma update_not_playing: "gs \<noteq> PLAYING \<Longrightarrow> update gs rnd w = (w, [])"
  by (simp add: update_def)

lemma fst_update_playing:
  "fst (update PLAYING rnd w) =
     (advance rnd w)\<lparr>coinsRef := coinsOut (collide (advance rnd w)),
        objectsRef := (if returned (collide (advance rnd w)) then array (collide (advance rnd w))
                       else activeObjects (collide (advance rnd w)))\<rparr>"
  by (simp add: update_def collisions_def Let_def)

lemma playerRef_update:
  "playerRef (fst (update gs rnd w)) =
     (if gs = PLAYING then playerPhysics (playerRef w) else playerRef w)"
  by (simp add: update_def collisions_def advance_def Let_def)

lemma speedRef_update:
  "speedRef (fst (update gs rnd w)) =
     (if gs = PLAYING then min GAME_SPEED_MAX (speedRef w + 0.015) else speedRef w)"
  by (simp add: update_def collisions_def advance_def Let_def)

lemma run_append:
  "run (xs @ ys) w = (case run xs w of (w1, s1) \<Rightarrow> (case run ys w1 of (w2, s2) \<Rightarrow> (w2, s1 @ s2)))"
  by (induction xs arbitrary: w) (auto split: prod.splits)

lemma fst_run_snoc: "fst (run (xs @ [i]) w) = fst (stepInput i (fst (run xs w)))"
  by (simp add: run_append split: prod.splits)

section \<open>The projection\<close>

text \<open>
  C2.  \<^verbatim>\<open>project3D\<close> returns \<open>visible = false\<close> and \<open>scale = 0\<close> exactly when
  \<open>z - cameraZ \<le> 0\<close>, where \<open>cameraZ = -1000\<close>; otherwise it returns \<open>visible = true\<close>,
  \<open>scale = perspective / (z - cameraZ)\<close>, \<open>x = width/2 + x * scale\<close> and
  \<open>y = HORIZON_Y + (cameraHeight - y) * scale\<close>.
\<close>

theorem project3D_visible_iff:
  "cameraZ = - 1000 \<and>
   ((\<not> visible (project3D x0 y0 z0 width height) \<and> scale (project3D x0 y0 z0 width height) = 0)
      = (z0 - cameraZ \<le> 0)) \<and>
   (if z0 - cameraZ \<le> 0 then
      \<not> visible (project3D x0 y0 z0 width height) \<and> scale (project3D x0 y0 z0 width height) = 0
    else
      visible (project3D x0 y0 z0 width height) \<and>
      scale (project3D x0 y0 z0 width height) = perspective / (z0 - cameraZ) \<and>
      screenX (project3D x0 y0 z0 width height)
        = width / 2 + x0 * scale (project3D x0 y0 z0 width height) \<and>
      screenY (project3D x0 y0 z0 width height)
        = HORIZON_Y + (cameraHeight - y0) * scale (project3D x0 y0 z0 width height))"
  by (simp add: project3D_def Let_def cameraZ_def)

theorem project3D_visible_iff_witness:
  "\<not> visible (project3D 0 0 (- 1000) 800 600) \<and> scale (project3D 0 0 (- 1000) 800 600) = 0 \<and>
   visible (project3D 250 0 0 800 600) \<and> scale (project3D 250 0 0 800 600) = 4 / 5 \<and>
   screenX (project3D 250 0 0 800 600) = 600 \<and> screenY (project3D 250 0 0 800 600) = 570"
proof -
  have behind: "(- 1000 :: real) - cameraZ \<le> 0" and ahead: "\<not> (0 :: real) - cameraZ \<le> 0"
    by (simp_all add: cameraZ_def)
  from behind
    project3D_visible_iff [where ?x0.0 = 0 and ?y0.0 = 0 and ?z0.0 = "- 1000"
      and width = 800 and height = 600, THEN conjunct2, THEN conjunct2]
  have a: "\<not> visible (project3D 0 0 (- 1000) 800 600) \<and> scale (project3D 0 0 (- 1000) 800 600) = 0"
    by simp
  from ahead
    project3D_visible_iff [where ?x0.0 = 250 and ?y0.0 = 0 and ?z0.0 = 0
      and width = 800 and height = 600, THEN conjunct2, THEN conjunct2]
  have b: "visible (project3D 250 0 0 800 600) \<and>
      scale (project3D 250 0 0 800 600) = perspective / (0 - cameraZ) \<and>
      screenX (project3D 250 0 0 800 600) = 800 / 2 + 250 * scale (project3D 250 0 0 800 600) \<and>
      screenY (project3D 250 0 0 800 600)
        = HORIZON_Y + (cameraHeight - 0) * scale (project3D 250 0 0 800 600)"
    by simp
  from b have "scale (project3D 250 0 0 800 600) = 4 / 5"
    by (simp add: perspective_def cameraZ_def)
  with a b show ?thesis
    by (simp add: HORIZON_Y_def cameraHeight_def)
qed

section \<open>The vertical clamp\<close>

lemma y_verticalIntegration: "0 \<le> y (verticalIntegration p)"
  by (simp add: verticalIntegration_def Let_def)

lemma y_playerPhysics: "0 \<le> y (playerPhysics p)"
  using y_verticalIntegration [of "laneSmoothing p"]
  by (simp add: playerPhysics_def rollStep_def Let_def)

lemma y_handleKeyDown: "y (handleKeyDown gs key p) = y p"
  by (simp add: handleKeyDown_def laneLeft_def laneRight_def jump_def duck_def)

lemma y_handleTouchEnd: "y (handleTouchEnd gs dx0 dy0 p) = y p"
  by (simp add: handleTouchEnd_def duck_def)

lemma y_stepInput: "0 \<le> y (playerRef w) \<Longrightarrow> 0 \<le> y (playerRef (fst (stepInput i w)))"
  by (cases i) (simp_all add: y_handleKeyDown y_handleTouchEnd playerRef_update y_playerPhysics)

lemma y_run: "0 \<le> y (playerRef w) \<Longrightarrow> 0 \<le> y (playerRef (fst (run inputs w)))"
proof (induction inputs arbitrary: w)
  case Nil
  then show ?case by simp
next
  case (Cons i rest)
  have "0 \<le> y (playerRef (fst (stepInput i w)))"
    using Cons.prems by (rule y_stepInput)
  from Cons.IH [OF this] show ?case
    by (simp add: case_prod_beta)
qed

lemma playerPhysics_landing:
  "y p + dy p \<le> 0 \<Longrightarrow>
     y (playerPhysics p) = 0 \<and> dy (playerPhysics p) = 0 \<and> \<not> isJumping (playerPhysics p)"
  by (simp add: playerPhysics_def rollStep_def verticalIntegration_def laneSmoothing_def Let_def)

text \<open>
  C3.  From a player with \<open>y \<ge> 0\<close> and any \<open>dy\<close>, whatever key presses, touches and
  frames follow, \<open>y\<close> is never negative; and a step whose integration \<open>y + dy\<close> reaches 0
  or less leaves \<open>y = 0\<close>, \<open>dy = 0\<close> and \<open>isJumping = false\<close>.
\<close>

theorem vertical_clamp:
  assumes "0 \<le> y (playerRef w)"
  shows "0 \<le> y (playerRef (fst (run inputs w))) \<and>
         0 \<le> y (verticalIntegration (playerRef w)) \<and>
         (y (playerRef w) + dy (playerRef w) \<le> 0 \<longrightarrow>
            y (playerRef (fst (update PLAYING rnd w))) = 0 \<and>
            dy (playerRef (fst (update PLAYING rnd w))) = 0 \<and>
            \<not> isJumping (playerRef (fst (update PLAYING rnd w))))"
  using assms y_run [of w inputs] y_verticalIntegration [of "playerRef w"]
    playerPhysics_landing [of "playerRef w"]
  by (simp add: playerRef_update)

theorem vertical_clamp_witness:
  "0 \<le> y (playerRef fallingWorld) \<and>
   y (playerRef fallingWorld) + dy (playerRef fallingWorld) \<le> 0 \<and>
   0 \<le> y (playerRef (fst (run [KeyDown PLAYING ''s'', Frame PLAYING sampleRand] fallingWorld))) \<and>
   y (playerRef (fst (update PLAYING sampleRand fallingWorld))) = 0 \<and>
   dy (playerRef (fst (update PLAYING sampleRand fallingWorld))) = 0 \<and>
   \<not> isJumping (playerRef (fst (update PLAYING sampleRand fallingWorld)))"
proof -
  have start: "0 \<le> y (playerRef fallingWorld)"
    and lands: "y (playerRef fallingWorld) + dy (playerRef fallingWorld) \<le> 0"
    by (simp_all add: fallingWorld_def initialWorld_def initialPlayer_def)
  from lands
    vertical_clamp [OF start, of "[KeyDown PLAYING ''s'', Frame PLAYING sampleRand]" sampleRand]
  show ?thesis
    using start by blast
qed

section \<open>The speed\<close>

lemma speedRef_stepInput:
  "speedRef (fst (stepInput i w)) =
     (case i of Frame gs rnd \<Rightarrow>
        if gs = PLAYING then min GAME_SPEED_MAX (speedRef w + 0.015) else speedRef w
      | _ \<Rightarrow> speedRef w)"
  by (cases i) (simp_all add: speedRef_update)

lemma speed_stepInput_le:
  "speedRef w \<le> GAME_SPEED_MAX \<Longrightarrow> speedRef (fst (stepInput i w)) \<le> GAME_SPEED_MAX"
  by (cases i) (simp_all add: speedRef_update)

lemma speed_stepInput_mono:
  "speedRef w \<le> GAME_SPEED_MAX \<Longrightarrow> speedRef w \<le> speedRef (fst (stepInput i w))"
  by (cases i) (simp_all add: speedRef_update)

lemma speed_run_le:
  "speedRef w \<le> GAME_SPEED_MAX \<Longrightarrow> speedRef (fst (run inputs w)) \<le> GAME_SPEED_MAX"
proof (induction inputs arbitrary: w)
  case Nil
  then show ?case by simp
next
  case (Cons i rest)
  have "speedRef (fst (stepInput i w)) \<le> GAME_SPEED_MAX"
    using Cons.prems by (rule speed_stepInput_le)
  from Cons.IH [OF this] show ?case
    by (simp add: case_prod_beta)
qed

text \<open>
  C8.  In a run that starts at the minimum speed, after any number of steps (and of key
  presses and touches between them) the speed is at most the maximum, the next step does
  not decrease it, and a step in the playing state sets it to
  \<open>min GAME_SPEED_MAX (speed + 0.015)\<close>.
\<close>

theorem speed_monotone_capped:
  assumes "speedRef w = GAME_SPEED_START"
  shows "speedRef (fst (run inputs w)) \<le> GAME_SPEED_MAX \<and>
         speedRef (fst (run inputs w)) \<le> speedRef (fst (run (inputs @ [i]) w)) \<and>
         speedRef (fst (update PLAYING rnd (fst (run inputs w))))
           = min GAME_SPEED_MAX (speedRef (fst (run inputs w)) + 0.015)"
proof -
  have "speedRef w \<le> GAME_SPEED_MAX"
    using assms by (simp add: GAME_SPEED_START_def GAME_SPEED_MAX_def)
  then have le: "speedRef (fst (run inputs w)) \<le> GAME_SPEED_MAX"
    by (rule speed_run_le)
  from speed_stepInput_mono [OF le]
  have "speedRef (fst (run inputs w)) \<le> speedRef (fst (run (inputs @ [i]) w))"
    by (simp add: fst_run_snoc)
  with le show ?thesis
    by (simp add: speedRef_update)
qed

theorem speed_monotone_capped_witness:
  "speedRef initialWorld = GAME_SPEED_START \<and>
   speedRef (fst (run [Frame PLAYING sampleRand, Frame PLAYING sampleRand] initialWorld))
     \<le> GAME_SPEED_MAX \<and>
   speedRef (fst (run [Frame PLAYING sampleRand, Frame PLAYING sampleRand] initialWorld))
     \<le> speedRef (fst (run ([Frame PLAYING sampleRand, Frame PLAYING sampleRand]
            @ [Frame PLAYING sampleRand]) initialWorld)) \<and>
   speedRef (fst (update PLAYING sampleRand
       (fst (run [Frame PLAYING sampleRand, Frame PLAYING sampleRand] initialWorld))))
     = min GAME_SPEED_MAX
        (speedRef (fst (run [Frame PLAYING sampleRand, Frame PLAYING sampleRand] initialWorld))
           + 0.015)"
proof -
  have start: "speedRef initialWorld = GAME_SPEED_START"
    by (simp add: initialWorld_def)
  from speed_monotone_capped [OF start,
      of "[Frame PLAYING sampleRand, Frame PLAYING sampleRand]" "Frame PLAYING sampleRand"
         sampleRand]
  show ?thesis
    using start by blast
qed

section \<open>The spawner's anti-overlap rule\<close>

lemma tooClose_iff:
  "tooClose l objs = (\<exists>ob \<in> set objs. olane ob = l \<and> z ob > 2500 \<and> otype ob \<noteq> COIN)"
  by (simp add: tooClose_def list_ex_iff)

text \<open>
  C7.  When the live set holds a non-pickup object in lane \<open>L\<close> with \<open>z > 2500\<close>, a
  spawn attempt that draws lane \<open>L\<close> leaves the set as it is: the call of
  \<^verbatim>\<open>spawnObject\<close> adds nothing, and neither does the part of the frame before the
  loop over the objects.
\<close>

theorem spawn_anti_overlap:
  assumes "ob \<in> set (objectsRef w)"
    and "otype ob \<noteq> COIN"
    and "olane ob = pickLane rnd"
    and "z ob > 2500"
  shows "spawnObject rnd (objectsRef w) = objectsRef w \<and>
         objectsRef (advance rnd w) = objectsRef w"
proof -
  have "tooClose (pickLane rnd) (objectsRef w)"
    using assms by (auto simp: tooClose_iff)
  then have "spawnObject rnd (objectsRef w) = objectsRef w"
    by (simp add: spawnObject_def Let_def)
  then show ?thesis
    by (simp add: advance_def Let_def)
qed

theorem spawn_anti_overlap_witness:
  "farTrain \<in> set (objectsRef (initialWorld\<lparr>objectsRef := [farTrain]\<rparr>)) \<and>
   otype farTrain \<noteq> COIN \<and> olane farTrain = pickLane sampleRand \<and> z farTrain > 2500 \<and>
   pickType sampleRand = BARRIER_HIGH \<and>
   spawnObject sampleRand [farTrain] = [farTrain] \<and>
   objectsRef (advance sampleRand (initialWorld\<lparr>objectsRef := [farTrain]\<rparr>)) = [farTrain]"
proof -
  have h: "farTrain \<in> set (objectsRef (initialWorld\<lparr>objectsRef := [farTrain]\<rparr>))"
    "otype farTrain \<noteq> COIN" "olane farTrain = pickLane sampleRand" "z farTrain > 2500"
    "pickType sampleRand = BARRIER_HIGH"
    by (simp_all add: farTrain_def pickLane_def pickType_def sampleRand_def lanes_def CENTER_def)
  from spawn_anti_overlap [OF h(1-4)] h show ?thesis
    by simp
qed

section \<open>Jumping and rolling exclude each other\<close>

lemma exclusive_handleKeyDown: "exclusive p \<Longrightarrow> exclusive (handleKeyDown gs key p)"
  by (simp add: exclusive_def handleKeyDown_def laneLeft_def laneRight_def jump_def duck_def)

lemma exclusive_handleTouchEnd: "exclusive p \<Longrightarrow> exclusive (handleTouchEnd gs dx0 dy0 p)"
  by (simp add: exclusive_def handleTouchEnd_def duck_def)

lemma exclusive_playerPhysics: "exclusive p \<Longrightarrow> exclusive (playerPhysics p)"
  by (auto simp: exclusive_def playerPhysics_def rollStep_def verticalIntegration_def
      laneSmoothing_def Let_def)

lemma exclusive_stepInput:
  "exclusive (playerRef w) \<Longrightarrow> exclusive (playerRef (fst (stepInput i w)))"
  by (cases i)
    (simp_all add: exclusive_handleKeyDown exclusive_handleTouchEnd playerRef_update
      exclusive_playerPhysics)

lemma exclusive_run:
  "exclusive (playerRef w) \<Longrightarrow> exclusive (playerRef (fst (run inputs w)))"
proof (induction inputs arbitrary: w)
  case Nil
  then show ?case by simp
next
  case (Cons i rest)
  have "exclusive (playerRef (fst (stepInput i w)))"
    using Cons.prems by (rule exclusive_stepInput)
  from Cons.IH [OF this] show ?case
    by (simp add: case_prod_beta)
qed

text \<open>
  C4.  In every state reached from the initial (reset) state by key presses, touches and
  frames, in any order and with any \<^verbatim>\<open>gameState\<close> at each of them, the player is not
  jumping and rolling at once.
\<close>

theorem never_jumping_and_rolling:
  "\<not> (isJumping (playerRef (fst (run inputs initialWorld))) \<and>
      isRolling (playerRef (fst (run inputs initialWorld))))"
proof -
  have "exclusive (playerRef initialWorld)"
    by (simp add: exclusive_def initialWorld_def initialPlayer_def)
  then have "exclusive (playerRef (fst (run inputs initialWorld)))"
    by (rule exclusive_run)
  then show ?thesis
    by (simp add: exclusive_def)
qed

theorem never_jumping_and_rolling_witness:
  "isJumping (playerRef (fst (run [KeyDown PLAYING ''w'', KeyDown PLAYING ''s''] initialWorld))) \<and>
   \<not> isRolling (playerRef (fst (run [KeyDown PLAYING ''w'', KeyDown PLAYING ''s''] initialWorld)))"
proof -
  have "isJumping (playerRef (fst (run [KeyDown PLAYING ''w'', KeyDown PLAYING ''s''] initialWorld)))"
    by (simp add: handleKeyDown_def jump_def duck_def initialWorld_def initialPlayer_def)
  with never_jumping_and_rolling [of "[KeyDown PLAYING ''w'', KeyDown PLAYING ''s'']"]
  show ?thesis
    by blast
qed

section \<open>The loop over the objects\<close>

lemma laneNear_z [simp]: "laneNear p (obj\<lparr>z := v\<rparr>) = laneNear p obj"
  by (simp add: laneNear_def)

lemma processObject_inactive:
  "\<not> active obj \<Longrightarrow> processObject sp p sc d c obj = (obj\<lparr>z := z obj - sp\<rparr>, c, [], False)"
  by (simp add: processObject_def Let_def)

lemma processObject_barrier_high:
  assumes "otype b = BARRIER_HIGH" "active b" "zOverlap (b\<lparr>z := z b - sp\<rparr>)" "laneNear p b"
  shows "processObject sp p sc d c b =
     (if isRolling p then (b\<lparr>z := z b - sp\<rparr>, c, [], False)
      else (b\<lparr>z := z b - sp\<rparr>, c,
            [OnGameOver \<lparr>score = sc, coins = c, distance = \<lfloor>d\<rfloor>, highScore = 0\<rparr>], True))"
  using assms by (simp add: processObject_def Let_def isHit_def)

lemma objectLoop_append:
  "objectLoop sp p sc d c (xs @ ys) =
     (let r1 = objectLoop sp p sc d c xs in
      if returned r1 then r1\<lparr>array := array r1 @ ys\<rparr>
      else
        (let r2 = objectLoop sp p sc d (coinsOut r1) ys in
         \<lparr>returned = returned r2, coinsOut = coinsOut r2, signals = signals r1 @ signals r2,
          array = array r1 @ array r2,
          activeObjects = activeObjects r1 @ activeObjects r2\<rparr>))"
proof (induction xs arbitrary: c)
  case Nil
  show ?case by (cases "objectLoop sp p sc d c ys") (simp add: Let_def)
next
  case (Cons x xs)
  obtain x1 c1 sg rt where px: "processObject sp p sc d c x = (x1, c1, sg, rt)"
    by (cases "processObject sp p sc d c x") auto
  show ?case
  proof (cases rt)
    case True
    with px show ?thesis by simp
  next
    case False
    with px Cons.IH [of c1] show ?thesis
      by (simp add: Let_def)
  qed
qed

lemma objectLoop_gameOvers:
  "filter isGameOver (signals (objectLoop sp p sc d c xs)) =
     (if returned (objectLoop sp p sc d c xs)
      then [OnGameOver \<lparr>score = sc, coins = coinsOut (objectLoop sp p sc d c xs),
                        distance = \<lfloor>d\<rfloor>, highScore = 0\<rparr>]
      else [])"
proof (induction xs arbitrary: c)
  case Nil
  show ?case by simp
next
  case (Cons x xs)
  show ?case
    using Cons.IH
    by (auto simp: processObject_def Let_def)
qed

lemma objectLoop_last:
  "returned (objectLoop sp p sc d c xs) \<Longrightarrow>
     signals (objectLoop sp p sc d c xs) \<noteq> [] \<and>
     last (signals (objectLoop sp p sc d c xs)) =
       OnGameOver \<lparr>score = sc, coins = coinsOut (objectLoop sp p sc d c xs),
                   distance = \<lfloor>d\<rfloor>, highScore = 0\<rparr>"
proof (induction xs arbitrary: c)
  case Nil
  then show ?case by simp
next
  case (Cons x xs)
  obtain x1 c1 sg rt where px: "processObject sp p sc d c x = (x1, c1, sg, rt)"
    by (cases "processObject sp p sc d c x") auto
  show ?case
  proof (cases rt)
    case True
    with px have "sg = [OnGameOver \<lparr>score = sc, coins = c1, distance = \<lfloor>d\<rfloor>, highScore = 0\<rparr>]"
      by (auto simp: processObject_def Let_def split: if_splits)
    with px True show ?thesis by simp
  next
    case False
    with px Cons.prems have "returned (objectLoop sp p sc d c1 xs)"
      by (simp add: Let_def)
    from Cons.IH [OF this] px False show ?thesis
      by (simp add: Let_def)
  qed
qed

lemma zOverlap_keepObject: "zOverlap obj \<Longrightarrow> keepObject obj"
  by (simp add: zOverlap_def keepObject_def playerZMin_def)

lemma objectLoop_through_barrier:
  assumes "otype b = BARRIER_HIGH" "active b" "zOverlap (b\<lparr>z := z b - sp\<rparr>)" "laneNear p b"
    and "\<not> returned (objectLoop sp p sc d c pre)"
  shows "objectLoop sp p sc d c (pre @ b # post) =
     (let r1 = objectLoop sp p sc d c pre; b1 = b\<lparr>z := z b - sp\<rparr> in
      if isRolling p then
        (let r2 = objectLoop sp p sc d (coinsOut r1) post in
         \<lparr>returned = returned r2, coinsOut = coinsOut r2, signals = signals r1 @ signals r2,
          array = array r1 @ b1 # array r2,
          activeObjects = activeObjects r1 @ b1 # activeObjects r2\<rparr>)
      else
        \<lparr>returned = True, coinsOut = coinsOut r1,
         signals = signals r1 @
           [OnGameOver \<lparr>score = sc, coins = coinsOut r1, distance = \<lfloor>d\<rfloor>, highScore = 0\<rparr>],
         array = array r1 @ b1 # post, activeObjects = activeObjects r1\<rparr>)"
  using assms zOverlap_keepObject [of "b\<lparr>z := z b - sp\<rparr>"]
  by (simp add: objectLoop_append processObject_barrier_high Let_def)

lemma objectLoop_barrier_returns:
  assumes "otype b = BARRIER_HIGH" "active b" "zOverlap (b\<lparr>z := z b - sp\<rparr>)" "laneNear p b"
    and "\<not> isRolling p"
  shows "returned (objectLoop sp p sc d c (pre @ b # post))"
proof (cases "returned (objectLoop sp p sc d c pre)")
  case True
  then show ?thesis by (simp add: objectLoop_append Let_def)
next
  case False
  from objectLoop_through_barrier [OF assms(1-4) False] assms(5) show ?thesis
    by (simp add: Let_def)
qed

text \<open>
  C1, as the code has it.  Take a step in the playing state and a live \<^verbatim>\<open>BARRIER_HIGH\<close>
  object \<open>b\<close> of the array the loop runs over, whose depth interval after the step's
  movement overlaps the player's and which passes the lane check.  \<open>rPre\<close> is the loop
  over the objects before \<open>b\<close>, \<open>rPost\<close> the loop over the objects after it.

  When the player is rolling (after the step's roll timer), \<open>b\<close> emits no signal and does
  not end the step: if the loop reaches \<open>b\<close>, it goes on with the objects after \<open>b\<close>,
  and the game-over signals of the step are those of these objects, so none if none of
  them ends the step.

  When the player is not rolling, the step emits exactly one game-over signal, as its last
  signal, carrying the score, the coins and the floored distance that the refs hold after
  the step; and if the loop reaches \<open>b\<close>, the coins are those counted before \<open>b\<close>, the
  objects after \<open>b\<close> are left as they were, and nothing else happens in the step.
\<close>

theorem barrier_high_collision:
  fixes w :: World and rnd :: Rand and pre post :: "GameObject list" and b :: GameObject
  defines "w1 \<equiv> advance rnd w"
  defines "b1 \<equiv> b\<lparr>z := z b - speedRef w1\<rparr>"
  defines "rPre \<equiv> objectLoop (speedRef w1) (playerRef w1) (scoreRef w1) (distanceRef w1)
                     (coinsRef w1) pre"
  defines "rPost \<equiv> objectLoop (speedRef w1) (playerRef w1) (scoreRef w1) (distanceRef w1)
                     (coinsOut rPre) post"
  defines "w2 \<equiv> w1\<lparr>coinsRef := coinsOut rPre, objectsRef := array rPre @ b1 # post\<rparr>"
  assumes objs: "objectsRef w1 = pre @ b # post"
    and barrier: "otype b = BARRIER_HIGH" "active b"
    and overlap: "zOverlap b1"
    and near: "laneNear (playerRef w1) b"
  shows "(isRolling (playerRef w1) \<longrightarrow>
            processObject (speedRef w1) (playerRef w1) (scoreRef w1) (distanceRef w1)
                (coinsOut rPre) b = (b1, coinsOut rPre, [], False) \<and>
            (\<not> returned rPre \<longrightarrow>
               snd (update PLAYING rnd w) = OnScoreUpdate (scoreRef w1) # signals rPre @ signals rPost \<and>
               filter isGameOver (snd (update PLAYING rnd w)) = filter isGameOver (signals rPost) \<and>
               (\<not> returned rPost \<longrightarrow> filter isGameOver (snd (update PLAYING rnd w)) = []) \<and>
               coinsRef (fst (update PLAYING rnd w)) = coinsOut rPost \<and>
               objectsRef (fst (update PLAYING rnd w)) =
                 (if returned rPost then array rPre @ b1 # array rPost
                  else activeObjects rPre @ b1 # activeObjects rPost))) \<and>
         (\<not> isRolling (playerRef w1) \<longrightarrow>
            filter isGameOver (snd (update PLAYING rnd w))
              = [gameOverSignal (fst (update PLAYING rnd w))] \<and>
            last (snd (update PLAYING rnd w)) = gameOverSignal (fst (update PLAYING rnd w)) \<and>
            (\<not> returned rPre \<longrightarrow>
               update PLAYING rnd w =
                 (w2, OnScoreUpdate (scoreRef w1) # signals rPre @ [gameOverSignal w2])))"
proof -
  let ?L = "objectLoop (speedRef w1) (playerRef w1) (scoreRef w1) (distanceRef w1) (coinsRef w1)"
  have upd: "update PLAYING rnd w =
      (w1\<lparr>coinsRef := coinsOut (?L (pre @ b # post)),
          objectsRef := (if returned (?L (pre @ b # post)) then array (?L (pre @ b # post))
                         else activeObjects (?L (pre @ b # post)))\<rparr>,
       OnScoreUpdate (scoreRef w1) # signals (?L (pre @ b # post)))"
    using objs by (simp add: update_def collisions_def collide_def Let_def w1_def)
  have hit: "processObject (speedRef w1) (playerRef w1) (scoreRef w1) (distanceRef w1) c b =
      (if isRolling (playerRef w1) then (b1, c, [], False)
       else (b1, c, [OnGameOver \<lparr>score = scoreRef w1, coins = c, distance = \<lfloor>distanceRef w1\<rfloor>,
                                 highScore = 0\<rparr>], True))" for c
    using processObject_barrier_high [OF barrier overlap [unfolded b1_def] near]
    by (simp add: b1_def)
  have through: "\<not> returned rPre \<Longrightarrow> ?L (pre @ b # post) =
      (if isRolling (playerRef w1) then
         \<lparr>returned = returned rPost, coinsOut = coinsOut rPost,
          signals = signals rPre @ signals rPost, array = array rPre @ b1 # array rPost,
          activeObjects = activeObjects rPre @ b1 # activeObjects rPost\<rparr>
       else
         \<lparr>returned = True, coinsOut = coinsOut rPre,
          signals = signals rPre @
            [OnGameOver \<lparr>score = scoreRef w1, coins = coinsOut rPre,
                         distance = \<lfloor>distanceRef w1\<rfloor>, highScore = 0\<rparr>],
          array = array rPre @ b1 # post, activeObjects = activeObjects rPre\<rparr>)"
    using objectLoop_through_barrier [OF barrier overlap [unfolded b1_def] near, of "scoreRef w1"
        "distanceRef w1" "coinsRef w1" pre post]
    by (simp add: Let_def rPre_def rPost_def b1_def)
  have quiet: "filter isGameOver (signals rPre) = []" if "\<not> returned rPre"
    using that objectLoop_gameOvers [of "speedRef w1" "playerRef w1" "scoreRef w1" "distanceRef w1"
        "coinsRef w1" pre]
    by (simp add: rPre_def)
  have rolling: ?thesis if roll: "isRolling (playerRef w1)"
  proof -
    have "\<not> returned rPre \<Longrightarrow>
        snd (update PLAYING rnd w) = OnScoreUpdate (scoreRef w1) # signals rPre @ signals rPost \<and>
        filter isGameOver (snd (update PLAYING rnd w)) = filter isGameOver (signals rPost) \<and>
        (\<not> returned rPost \<longrightarrow> filter isGameOver (snd (update PLAYING rnd w)) = []) \<and>
        coinsRef (fst (update PLAYING rnd w)) = coinsOut rPost \<and>
        objectsRef (fst (update PLAYING rnd w)) =
          (if returned rPost then array rPre @ b1 # array rPost
           else activeObjects rPre @ b1 # activeObjects rPost)"
      using through quiet roll
        objectLoop_gameOvers [of "speedRef w1" "playerRef w1" "scoreRef w1" "distanceRef w1"
          "coinsOut rPre" post]
      by (simp add: upd rPost_def)
    moreover have "processObject (speedRef w1) (playerRef w1) (scoreRef w1) (distanceRef w1)
        (coinsOut rPre) b = (b1, coinsOut rPre, [], False)"
      using roll hit [of "coinsOut rPre"] by simp
    ultimately show ?thesis
      using roll by blast
  qed
  have standing: ?thesis if stand: "\<not> isRolling (playerRef w1)"
  proof -
    have ret: "returned (?L (pre @ b # post))"
      using objectLoop_barrier_returns [OF barrier overlap [unfolded b1_def] near stand] .
    have one: "filter isGameOver (snd (update PLAYING rnd w))
        = [gameOverSignal (fst (update PLAYING rnd w))]"
      using ret objectLoop_gameOvers [of "speedRef w1" "playerRef w1" "scoreRef w1"
          "distanceRef w1" "coinsRef w1" "pre @ b # post"]
      by (simp add: upd gameOverSignal_def)
    have lst: "last (snd (update PLAYING rnd w)) = gameOverSignal (fst (update PLAYING rnd w))"
      using objectLoop_last [OF ret]
      by (simp add: upd gameOverSignal_def)
    have "\<not> returned rPre \<Longrightarrow>
        update PLAYING rnd w = (w2, OnScoreUpdate (scoreRef w1) # signals rPre @ [gameOverSignal w2])"
      using through stand by (simp add: upd gameOverSignal_def w2_def)
    with one lst stand show ?thesis
      by blast
  qed
  from rolling standing show ?thesis
    by blast
qed

lemmas sample_defs = lowArch_def passingTrain_def midRun_def roller_def sideswiper_def
  initialPlayer_def sampleRand_def CENTER_def RIGHT_def LEFT_def

lemmas step_defs = update_def collisions_def collide_def advance_def spawnRate_def
  playerPhysics_def laneSmoothing_def verticalIntegration_def rollStep_def
  processObject_def zOverlap_def laneNear_def isHit_def keepObject_def objDepth_def
  playerZMin_def playerZMax_def GAME_SPEED_MAX_def LANE_SPEED_def GRAVITY_def Let_def

theorem barrier_high_collision_witness:
  "isRolling (playerRef (advance sampleRand (midRun roller [lowArch]))) \<and>
   snd (update PLAYING sampleRand (midRun roller [lowArch])) = [OnScoreUpdate 103] \<and>
   objectsRef (fst (update PLAYING sampleRand (midRun roller [lowArch])))
     = [lowArch\<lparr>z := 9.985\<rparr>] \<and>
   \<not> isRolling (playerRef (advance sampleRand (midRun initialPlayer [lowArch]))) \<and>
   filter isGameOver (snd (update PLAYING sampleRand (midRun initialPlayer [lowArch])))
     = [OnGameOver \<lparr>score = 103, coins = 3, distance = 203, highScore = 0\<rparr>] \<and>
   update PLAYING sampleRand (midRun initialPlayer [lowArch])
     = ((advance sampleRand (midRun initialPlayer [lowArch]))\<lparr>objectsRef := [lowArch\<lparr>z := 9.985\<rparr>]\<rparr>,
        [OnScoreUpdate 103,
         OnGameOver \<lparr>score = 103, coins = 3, distance = 203, highScore = 0\<rparr>])"
proof -
  have objs: "objectsRef (advance sampleRand (midRun p [lowArch])) = [] @ lowArch # []" for p
    by (simp add: advance_def spawnRate_def midRun_def GAME_SPEED_MAX_def Let_def)
  have barrier: "otype lowArch = BARRIER_HIGH" "active lowArch"
    by (simp_all add: lowArch_def)
  have overlap: "zOverlap (lowArch\<lparr>z := z lowArch - speedRef (advance sampleRand (midRun p [lowArch]))\<rparr>)"
    for p
    by (simp add: step_defs sample_defs)
  have near: "laneNear (playerRef (advance sampleRand (midRun p [lowArch]))) lowArch"
    if "lane p = 0" "targetLane p = 0" for p
    using that by (simp add: step_defs sample_defs)
  have roll: "isRolling (playerRef (advance sampleRand (midRun roller [lowArch])))"
    and stand: "\<not> isRolling (playerRef (advance sampleRand (midRun initialPlayer [lowArch])))"
    by (simp_all add: step_defs sample_defs)
  have rl: "lane roller = 0" "targetLane roller = 0"
    and il: "lane initialPlayer = 0" "targetLane initialPlayer = 0"
    by (simp_all add: sample_defs)
  have vals: "scoreRef (advance sampleRand (midRun p [lowArch])) = 103"
    "coinsRef (advance sampleRand (midRun p [lowArch])) = 3"
    "\<lfloor>distanceRef (advance sampleRand (midRun p [lowArch]))\<rfloor> = 203"
    "speedRef (advance sampleRand (midRun p [lowArch])) = 30.015" for p
    by (simp_all add: step_defs sample_defs)
  have zl: "z lowArch = 40"
    by (simp add: lowArch_def)
  from barrier_high_collision [OF objs barrier overlap near [OF rl]] roll
  have a: "snd (update PLAYING sampleRand (midRun roller [lowArch])) = [OnScoreUpdate 103] \<and>
      objectsRef (fst (update PLAYING sampleRand (midRun roller [lowArch])))
        = [lowArch\<lparr>z := 9.985\<rparr>]"
    by (simp add: vals zl)
  from barrier_high_collision [OF objs barrier overlap near [OF il]] stand
  have b: "update PLAYING sampleRand (midRun initialPlayer [lowArch])
     = ((advance sampleRand (midRun initialPlayer [lowArch]))\<lparr>objectsRef := [lowArch\<lparr>z := 9.985\<rparr>]\<rparr>,
        [OnScoreUpdate 103,
         OnGameOver \<lparr>score = 103, coins = 3, distance = 203, highScore = 0\<rparr>])"
    by (simp add: vals zl gameOverSignal_def)
  from b have "filter isGameOver (snd (update PLAYING sampleRand (midRun initialPlayer [lowArch])))
      = [OnGameOver \<lparr>score = 103, coins = 3, distance = 203, highScore = 0\<rparr>]"
    by simp
  with a b roll stand show ?thesis
    by blast
qed

text \<open>
  The claim as it is worded fails when another obstacle ends the step.  The rolling player
  is under a high barrier of the centre lane, within tolerance of it, and within tolerance
  of the right lane too, where a train is passing: the step emits a game-over signal.
\<close>

theorem barrier_high_rolling_counterexample:
  "lowArch \<in> set (objectsRef (advance sampleRand (midRun sideswiper [passingTrain, lowArch]))) \<and>
   otype lowArch = BARRIER_HIGH \<and> active lowArch \<and>
   zOverlap (lowArch\<lparr>z := z lowArch
       - speedRef (advance sampleRand (midRun sideswiper [passingTrain, lowArch]))\<rparr>) \<and>
   laneNear (playerRef (advance sampleRand (midRun sideswiper [passingTrain, lowArch]))) lowArch \<and>
   isRolling (playerRef (midRun sideswiper [passingTrain, lowArch])) \<and>
   isRolling (playerRef (advance sampleRand (midRun sideswiper [passingTrain, lowArch]))) \<and>
   snd (update PLAYING sampleRand (midRun sideswiper [passingTrain, lowArch]))
     = [OnScoreUpdate 103,
        OnGameOver \<lparr>score = 103, coins = 3, distance = 203, highScore = 0\<rparr>]"
  by (simp add: step_defs sample_defs)

section \<open>Objects that are no longer active\<close>

lemma processObject_coin_cases:
  "processObject sp p sc d c obj = (obj\<lparr>z := z obj - sp\<rparr>, c, [], False) \<or>
   processObject sp p sc d c obj =
     (obj\<lparr>z := z obj - sp\<rparr>, c,
      [OnGameOver \<lparr>score = sc, coins = c, distance = \<lfloor>d\<rfloor>, highScore = 0\<rparr>], True) \<or>
   (active obj \<and> otype obj = COIN \<and>
    processObject sp p sc d c obj =
      (obj\<lparr>z := z obj - sp, active := False\<rparr>, c + 1, [OnCoinsUpdate (c + 1)], False))"
  by (simp add: processObject_def Let_def)

lemma objectLoop_live:
  "returned (objectLoop sp p sc d c xs) = returned (objectLoop sp p sc d c (filter active xs)) \<and>
   coinsOut (objectLoop sp p sc d c xs) = coinsOut (objectLoop sp p sc d c (filter active xs)) \<and>
   signals (objectLoop sp p sc d c xs) = signals (objectLoop sp p sc d c (filter active xs)) \<and>
   filter active (array (objectLoop sp p sc d c xs))
     = filter active (array (objectLoop sp p sc d c (filter active xs))) \<and>
   filter active (activeObjects (objectLoop sp p sc d c xs))
     = filter active (activeObjects (objectLoop sp p sc d c (filter active xs)))"
proof (induction xs arbitrary: c)
  case Nil
  show ?case by simp
next
  case (Cons x xs)
  show ?case
  proof (cases "active x")
    case False
    with Cons.IH [of c] show ?thesis
      by (simp add: processObject_inactive Let_def)
  next
    case True
    obtain x1 c1 sg ret where px: "processObject sp p sc d c x = (x1, c1, sg, ret)"
      by (cases "processObject sp p sc d c x") auto
    with Cons.IH [of c1] True show ?thesis
      by (simp add: Let_def)
  qed
qed

lemma collisions_live:
  "snd (collisions w) = snd (collisions (live w)) \<and>
   live (fst (collisions w)) = live (fst (collisions (live w)))"
  using objectLoop_live [of "speedRef w" "playerRef w" "scoreRef w" "distanceRef w" "coinsRef w"
      "objectsRef w"]
  by (simp add: collisions_def collide_def live_def Let_def)

lemma tooClose_live:
  "list_all (\<lambda>ob. active ob \<or> otype ob = COIN) xs \<Longrightarrow>
     tooClose l (filter active xs) = tooClose l xs"
  by (induction xs) (auto simp: tooClose_def)

lemma spawnObject_live:
  "list_all (\<lambda>ob. active ob \<or> otype ob = COIN) xs \<Longrightarrow>
     filter active (spawnObject rnd xs) = spawnObject rnd (filter active xs)"
  by (simp add: spawnObject_def Let_def tooClose_live coinLine_def)

lemma advance_live:
  "coinsSpent w \<Longrightarrow> live (advance rnd w) = advance rnd (live w)"
  by (simp add: advance_def live_def coinsSpent_def Let_def spawnObject_live)

lemma live_live: "live (live w) = live w"
  by (simp add: live_def)

lemma coinsSpent_live: "coinsSpent (live w)"
  by (simp add: coinsSpent_def live_def list_all_iff)

lemma coinsSpent_spawnObject:
  "list_all (\<lambda>ob. active ob \<or> otype ob = COIN) xs \<Longrightarrow>
     list_all (\<lambda>ob. active ob \<or> otype ob = COIN) (spawnObject rnd xs)"
  by (auto simp: spawnObject_def Let_def coinLine_def list_all_iff)

lemma coinsSpent_advance: "coinsSpent w \<Longrightarrow> coinsSpent (advance rnd w)"
  by (simp add: advance_def coinsSpent_def Let_def coinsSpent_spawnObject)

lemma processObject_spent:
  "processObject sp p sc d c x = (x1, c1, sg, ret) \<Longrightarrow>
     active x \<or> otype x = COIN \<Longrightarrow> active x1 \<or> otype x1 = COIN"
  by (auto simp: processObject_def Let_def split: if_splits)

lemma objectLoop_spent:
  "list_all (\<lambda>ob. active ob \<or> otype ob = COIN) xs \<Longrightarrow>
     list_all (\<lambda>ob. active ob \<or> otype ob = COIN) (array (objectLoop sp p sc d c xs)) \<and>
     list_all (\<lambda>ob. active ob \<or> otype ob = COIN) (activeObjects (objectLoop sp p sc d c xs))"
proof (induction xs arbitrary: c)
  case Nil
  show ?case by simp
next
  case (Cons x xs)
  obtain x1 c1 sg ret where px: "processObject sp p sc d c x = (x1, c1, sg, ret)"
    by (cases "processObject sp p sc d c x") auto
  from processObject_spent [OF px] Cons.prems have "active x1 \<or> otype x1 = COIN"
    by simp
  with Cons.IH [of c1] Cons.prems px show ?case
    by (simp add: Let_def)
qed

lemma coinsSpent_collisions: "coinsSpent w \<Longrightarrow> coinsSpent (fst (collisions w))"
  using objectLoop_spent [of "objectsRef w" "speedRef w" "playerRef w" "scoreRef w"
      "distanceRef w" "coinsRef w"]
  by (simp add: collisions_def collide_def coinsSpent_def Let_def)

lemma coinsSpent_stepInput: "coinsSpent w \<Longrightarrow> coinsSpent (fst (stepInput i w))"
proof (cases i)
  case (Frame gs rnd)
  assume "coinsSpent w"
  from coinsSpent_collisions [OF coinsSpent_advance [OF this, of rnd]] \<open>coinsSpent w\<close>
  show ?thesis
    by (simp add: Frame update_def Let_def case_prod_beta)
qed (simp_all add: coinsSpent_def)

lemma coinsSpent_run: "coinsSpent w \<Longrightarrow> coinsSpent (fst (run inputs w))"
proof (induction inputs arbitrary: w)
  case Nil
  then show ?case by simp
next
  case (Cons i inputs)
  from Cons.IH [OF coinsSpent_stepInput [OF Cons.prems, of i]] show ?case
    by (simp add: case_prod_beta)
qed

lemma live_playerRef:
  assumes "live wL = live w0"
  shows "live (wL\<lparr>playerRef := f (playerRef wL)\<rparr>) = live (w0\<lparr>playerRef := f (playerRef w0)\<rparr>)"
proof -
  have p: "playerRef wL = playerRef w0"
    using arg_cong [OF assms, of playerRef] by (simp add: live_def)
  have "live (w\<lparr>playerRef := x\<rparr>) = (live w)\<lparr>playerRef := x\<rparr>" for w x
    by (simp add: live_def)
  then show ?thesis
    by (simp add: p assms)
qed

lemma stepInput_live:
  assumes "coinsSpent wL" "coinsSpent w0" "live wL = live w0"
  shows "snd (stepInput i wL) = snd (stepInput i w0) \<and>
         live (fst (stepInput i wL)) = live (fst (stepInput i w0))"
proof (cases i)
  case (Frame gs rnd)
  have a: "live (advance rnd wL) = live (advance rnd w0)"
    using assms by (simp add: advance_live)
  have sc: "scoreRef (advance rnd wL) = scoreRef (advance rnd w0)"
    using arg_cong [OF a, of scoreRef] by (simp add: live_def)
  from collisions_live [of "advance rnd wL"] collisions_live [of "advance rnd w0"] a
  have "snd (collisions (advance rnd wL)) = snd (collisions (advance rnd w0)) \<and>
      live (fst (collisions (advance rnd wL))) = live (fst (collisions (advance rnd w0)))"
    by simp
  with sc assms(3) show ?thesis
    by (simp add: Frame update_def Let_def case_prod_beta)
next
  case (KeyDown gs key)
  from live_playerRef [OF assms(3)] show ?thesis
    by (simp add: KeyDown)
next
  case (TouchEnd gs dx0 dy0)
  from live_playerRef [OF assms(3)] show ?thesis
    by (simp add: TouchEnd)
qed

lemma run_live:
  "coinsSpent wL \<Longrightarrow> coinsSpent w0 \<Longrightarrow> live wL = live w0 \<Longrightarrow>
     snd (run inputs wL) = snd (run inputs w0) \<and>
     live (fst (run inputs wL)) = live (fst (run inputs w0))"
proof (induction inputs arbitrary: wL w0)
  case Nil
  then show ?case by simp
next
  case (Cons i inputs)
  note one = stepInput_live [OF Cons.prems, of i]
  from one Cons.IH [OF coinsSpent_stepInput [OF Cons.prems(1), of i]
      coinsSpent_stepInput [OF Cons.prems(2), of i]]
  show ?case
    by (simp add: case_prod_beta)
qed


lemma processObject_gain:
  "fst (snd (processObject sp p sc d c obj)) = c \<or>
   (fst (snd (processObject sp p sc d c obj)) = c + 1 \<and> active obj \<and> otype obj = COIN \<and>
    \<not> active (fst (processObject sp p sc d c obj)))"
  by (simp add: processObject_def Let_def)

lemma objectLoop_counts:
  "coinsOut (objectLoop sp p sc d c xs)
       + int (length (activeCoins (array (objectLoop sp p sc d c xs))))
     = c + int (length (activeCoins xs)) \<and>
   int (length (filter isCoinsUpdate (signals (objectLoop sp p sc d c xs))))
     = coinsOut (objectLoop sp p sc d c xs) - c \<and>
   length (activeCoins (activeObjects (objectLoop sp p sc d c xs)))
     \<le> length (activeCoins (array (objectLoop sp p sc d c xs)))"
proof (induction xs arbitrary: c)
  case Nil
  show ?case by (simp add: activeCoins_def)
next
  case (Cons x xs)
  from processObject_coin_cases [of sp p sc d c x]
  consider (still) "processObject sp p sc d c x = (x\<lparr>z := z x - sp\<rparr>, c, [], False)"
    | (hit) "processObject sp p sc d c x =
        (x\<lparr>z := z x - sp\<rparr>, c,
         [OnGameOver \<lparr>score = sc, coins = c, distance = \<lfloor>d\<rfloor>, highScore = 0\<rparr>], True)"
    | (coin) "active x" "otype x = COIN" "processObject sp p sc d c x =
        (x\<lparr>z := z x - sp, active := False\<rparr>, c + 1, [OnCoinsUpdate (c + 1)], False)"
    by blast
  then show ?case
  proof cases
    case still
    with Cons.IH [of c] show ?thesis
      by (simp add: Let_def activeCoins_def)
  next
    case hit
    then show ?thesis
      by (simp add: activeCoins_def)
  next
    case coin
    with Cons.IH [of "c + 1"] show ?thesis
      by (simp add: Let_def activeCoins_def)
  qed
qed

lemma collisions_counts:
  "coinsRef (fst (collisions w)) + int (length (activeCoins (objectsRef (fst (collisions w)))))
     \<le> coinsRef w + int (length (activeCoins (objectsRef w))) \<and>
   int (length (filter isCoinsUpdate (snd (collisions w)))) = coinsRef (fst (collisions w)) - coinsRef w"
  using objectLoop_counts [of "speedRef w" "playerRef w" "scoreRef w" "distanceRef w" "coinsRef w"
      "objectsRef w"]
  by (simp add: collisions_def collide_def Let_def)

lemma advance_pushed:
  "objectsRef (advance rnd w) = objectsRef w @ pushed rnd w \<and> coinsRef (advance rnd w) = coinsRef w"
  by (simp add: pushed_def advance_def spawnObject_def Let_def)

lemma stepInput_counts:
  "coinsRef (fst (stepInput i w)) + int (length (activeCoins (objectsRef (fst (stepInput i w)))))
     \<le> coinsRef w + int (length (activeCoins (objectsRef w))) + int (coinsPlaced [i] w) \<and>
   int (length (filter isCoinsUpdate (snd (stepInput i w)))) = coinsRef (fst (stepInput i w)) - coinsRef w"
proof (cases i)
  case (Frame gs rnd)
  show ?thesis
  proof (cases "gs = PLAYING")
    case True
    from collisions_counts [of "advance rnd w"] advance_pushed [of rnd w] show ?thesis
      by (simp add: Frame True update_def Let_def case_prod_beta activeCoins_def)
  next
    case False
    then show ?thesis
      by (simp add: Frame update_def)
  qed
qed simp_all

lemma coinsPlaced_Cons: "coinsPlaced (i # rest) w = coinsPlaced [i] w + coinsPlaced rest (fst (stepInput i w))"
  by (cases i) simp_all

lemma run_counts:
  "coinsRef (fst (run inputs w)) + int (length (activeCoins (objectsRef (fst (run inputs w)))))
     \<le> coinsRef w + int (length (activeCoins (objectsRef w))) + int (coinsPlaced inputs w) \<and>
   int (length (filter isCoinsUpdate (snd (run inputs w)))) = coinsRef (fst (run inputs w)) - coinsRef w"
proof (induction inputs arbitrary: w)
  case Nil
  show ?case by simp
next
  case (Cons i inputs)
  from stepInput_counts [of i w] Cons.IH [of "fst (stepInput i w)"] show ?case
    unfolding coinsPlaced_Cons [of i inputs w] by (simp add: case_prod_beta del: coinsPlaced.simps)
qed

lemma coinsSpent_initial: "coinsSpent initialWorld"
  by (simp add: coinsSpent_def initialWorld_def)

text \<open>
  C10.  An object whose \<open>active\<close> flag is false is only moved by a visit of the loop: the
  visit adds no coin, emits no signal and does not end the step, whatever the speed, the
  player and the counters.  The loop and the assignment after it emit the same signals
  with the object in the live set as without it, and leave the same counters, the same
  player and the same active objects: the object itself is still inactive, or the cleanup
  has dropped it.  So does any run of inputs, frames and controls alike, from a world in
  which every inactive object is a coin: the signals are the same with the object and
  without it, and so is the world at the end, inactive objects apart.  (The spawner's test
  reads the lane, the depth and the type of an object, not its flag; the loop clears the
  flag of coins only, so every world that a run from the initial world reaches is such a
  world.)

  A visit adds one coin at most, and that to an active coin which it leaves inactive.  Over
  any run, the counter and the number of active coins in the live set together grow by no
  more than the number of active coins the spawner pushed, and the run emits one
  coins-changed signal for every coin counted: a coin is counted once at most.
\<close>

theorem inactive_object_inert:
  fixes w :: World and obj :: GameObject and pre post :: "GameObject list"
  defines "wL \<equiv> w\<lparr>objectsRef := pre @ obj # post\<rparr>"
  defines "w0 \<equiv> w\<lparr>objectsRef := pre @ post\<rparr>"
  assumes off: "\<not> active obj"
  shows "processObject sp p sc d c obj = (obj\<lparr>z := z obj - sp\<rparr>, c, [], False) \<and>
         snd (collisions wL) = snd (collisions w0) \<and>
         live (fst (collisions wL)) = live (fst (collisions w0)) \<and>
         (coinsSpent wL \<longrightarrow>
            snd (run inputs wL) = snd (run inputs w0) \<and>
            live (fst (run inputs wL)) = live (fst (run inputs w0)) \<and>
            coinsSpent (fst (run inputs wL))) \<and>
         coinsSpent (fst (run earlier initialWorld)) \<and>
         (fst (snd (processObject sp p sc d c any)) = c \<or>
          fst (snd (processObject sp p sc d c any)) = c + 1 \<and> active any \<and> otype any = COIN \<and>
            \<not> active (fst (processObject sp p sc d c any))) \<and>
         coinsRef (fst (run inputs v)) + int (length (activeCoins (objectsRef (fst (run inputs v)))))
           \<le> coinsRef v + int (length (activeCoins (objectsRef v))) + int (coinsPlaced inputs v) \<and>
         int (length (filter isCoinsUpdate (snd (run inputs v))))
           = coinsRef (fst (run inputs v)) - coinsRef v"
proof -
  have same: "live wL = live w0"
    using off by (simp add: live_def wL_def w0_def)
  have one: "snd (collisions wL) = snd (collisions w0) \<and>
      live (fst (collisions wL)) = live (fst (collisions w0))"
    using collisions_live [of wL] collisions_live [of w0] same by simp
  have many: "snd (run inputs wL) = snd (run inputs w0) \<and>
      live (fst (run inputs wL)) = live (fst (run inputs w0)) \<and>
      coinsSpent (fst (run inputs wL))" if sp: "coinsSpent wL"
  proof -
    have "coinsSpent w0"
      using sp by (simp add: coinsSpent_def wL_def w0_def)
    from run_live [OF sp this same] coinsSpent_run [OF sp] show ?thesis
      by simp
  qed
  from processObject_inactive [OF off] one many coinsSpent_run [OF coinsSpent_initial]
    processObject_gain [of sp p sc d c any] run_counts [of inputs v]
  show ?thesis
    by blast
qed

theorem inactive_object_inert_witness:
  "\<not> active spentCoin \<and>
   coinsSpent (midRun initialPlayer [spentCoin, freshCoin]) \<and>
   processObject 30 initialPlayer 100 200 3 spentCoin = (spentCoin\<lparr>z := 10\<rparr>, 3, [], False) \<and>
   snd (collisions (midRun initialPlayer [spentCoin, freshCoin])) = [OnCoinsUpdate 4] \<and>
   coinsRef (fst (collisions (midRun initialPlayer [spentCoin, freshCoin]))) = 4 \<and>
   objectsRef (live (fst (collisions (midRun initialPlayer [spentCoin, freshCoin])))) = [] \<and>
   snd (run [Frame PLAYING sampleRand, KeyDown PLAYING ''a'', Frame PLAYING coinRand]
          (midRun initialPlayer [spentCoin, freshCoin]))
     = snd (run [Frame PLAYING sampleRand, KeyDown PLAYING ''a'', Frame PLAYING coinRand]
          (midRun initialPlayer [freshCoin]))"
proof -
  let ?inputs = "[Frame PLAYING sampleRand, KeyDown PLAYING ''a'', Frame PLAYING coinRand]"
  have off: "\<not> active spentCoin" and zs: "z spentCoin = 40"
    by (simp_all add: spentCoin_def)
  have wL: "(midRun initialPlayer [])\<lparr>objectsRef := [] @ spentCoin # [freshCoin]\<rparr>
      = midRun initialPlayer [spentCoin, freshCoin]"
    and w0: "(midRun initialPlayer [])\<lparr>objectsRef := [] @ [freshCoin]\<rparr>
      = midRun initialPlayer [freshCoin]"
    by (simp_all add: midRun_def)
  have cs: "coinsSpent (midRun initialPlayer [spentCoin, freshCoin])"
    by (simp add: coinsSpent_def midRun_def spentCoin_def freshCoin_def)
  have without: "collisions (midRun initialPlayer [freshCoin])
      = (midRun initialPlayer [freshCoin\<lparr>z := 10, active := False\<rparr>]\<lparr>coinsRef := 4\<rparr>,
         [OnCoinsUpdate 4])"
    by (simp add: collisions_def collide_def midRun_def freshCoin_def processObject_def
        zOverlap_def laneNear_def objDepth_def playerZMin_def playerZMax_def keepObject_def
        initialPlayer_def CENTER_def Let_def)
  note inert = inactive_object_inert [OF off, where w = "midRun initialPlayer []" and pre = "[]"
      and post = "[freshCoin]" and sp = 30 and p = initialPlayer and sc = 100 and d = 200
      and c = 3 and inputs = ?inputs, unfolded wL w0]
  from inert have visit: "processObject 30 initialPlayer 100 200 3 spentCoin
      = (spentCoin\<lparr>z := z spentCoin - 30\<rparr>, 3, [], False)"
    and sig: "snd (collisions (midRun initialPlayer [spentCoin, freshCoin]))
      = snd (collisions (midRun initialPlayer [freshCoin]))"
    and lv: "live (fst (collisions (midRun initialPlayer [spentCoin, freshCoin])))
      = live (fst (collisions (midRun initialPlayer [freshCoin])))"
    and rn: "snd (run ?inputs (midRun initialPlayer [spentCoin, freshCoin]))
      = snd (run ?inputs (midRun initialPlayer [freshCoin]))"
    using cs by blast+
  have c4: "coinsRef (fst (collisions (midRun initialPlayer [spentCoin, freshCoin]))) = 4"
    using arg_cong [OF lv, of coinsRef] by (simp add: live_def without)
  have none: "objectsRef (live (fst (collisions (midRun initialPlayer [spentCoin, freshCoin])))) = []"
    unfolding lv without by (simp add: live_def midRun_def)
  from off cs visit sig c4 none rn show ?thesis
    by (simp add: zs without)
qed

section \<open>A line of pickups\<close>

lemma processObject_waiting:
  assumes "waiting l obj" "0 \<le> s" "s \<le> 60"
    and "inWindow s obj \<longrightarrow> \<bar>lane p - real_of_int l\<bar> < 0.6"
  shows "processObject s p sc d c obj =
     (nearer s obj,
      (if 50 \<le> z obj \<and> z obj - s < 50 then c + 1 else c),
      (if 50 \<le> z obj \<and> z obj - s < 50 then [OnCoinsUpdate (c + 1)] else []),
      False)"
  using assms
  by (auto simp: waiting_def processObject_def nearer_def inWindow_def zOverlap_def laneNear_def
      objDepth_def playerZMin_def playerZMax_def Let_def)

lemma coinSignals_same [simp]: "coinSignals c n n = []"
  by (simp add: coinSignals_def)

lemma coinSignals_Suc: "coinSignals c n (Suc n) = [OnCoinsUpdate (c + int n + 1)]"
  by (simp add: coinSignals_def)

lemma coinSignals_append:
  "k \<le> m \<Longrightarrow> m \<le> n \<Longrightarrow> coinSignals c k m @ coinSignals c m n = coinSignals c k n"
  unfolding coinSignals_def map_append [symmetric]
  by (metis Suc_le_mono upt_add_eq_append le_add_diff_inverse)

lemma objectLoop_waiting:
  assumes "\<forall>ob \<in> set xs. waiting l ob" "0 \<le> s" "s \<le> 60"
    and "list_ex (inWindow s) xs \<longrightarrow> \<bar>lane p - real_of_int l\<bar> < 0.6"
  shows "objectLoop s p sc d (c + int m) xs =
     \<lparr>returned = False, coinsOut = c + int (m + crossing s xs),
      signals = coinSignals c m (m + crossing s xs),
      array = map (nearer s) xs,
      activeObjects = filter keepObject (map (nearer s) xs)\<rparr>"
  using assms(1,4)
proof (induction xs arbitrary: m)
  case Nil
  show ?case by (simp add: crossing_def)
next
  case (Cons x xs)
  have x: "waiting l x" and rest: "\<forall>ob \<in> set xs. waiting l ob"
    using Cons.prems(1) by simp_all
  have nx: "inWindow s x \<longrightarrow> \<bar>lane p - real_of_int l\<bar> < 0.6"
    and nrest: "list_ex (inWindow s) xs \<longrightarrow> \<bar>lane p - real_of_int l\<bar> < 0.6"
    using Cons.prems(2) by simp_all
  note px = processObject_waiting [OF x assms(2,3) nx, of sc d "c + int m"]
  show ?case
  proof (cases "50 \<le> z x \<and> z x - s < 50")
    case True
    have cr: "crossing s (x # xs) = Suc (crossing s xs)"
      using True by (simp add: crossing_def)
    have c1: "c + int m + 1 = c + int (Suc m)"
      by simp
    have sg: "[OnCoinsUpdate (c + int m + 1)] @ coinSignals c (Suc m) (Suc m + crossing s xs)
        = coinSignals c m (Suc m + crossing s xs)"
      using coinSignals_append [of m "Suc m" "Suc m + crossing s xs" c]
      by (simp add: coinSignals_Suc)
    from Cons.IH [OF rest nrest, of "Suc m"] px True sg show ?thesis
      by (simp add: cr c1 del: of_nat_Suc of_nat_add)
  next
    case False
    have cr: "crossing s (x # xs) = crossing s xs"
      using False by (simp add: crossing_def)
    from Cons.IH [OF rest nrest, of m] px False show ?thesis
      by (simp add: cr del: of_nat_add)
  qed
qed

lemma frames_append:
  "frames (xs @ ys) w =
     (case frames xs w of (w1, s1) \<Rightarrow> (case frames ys w1 of (w2, s2) \<Rightarrow> (w2, s1 @ s2)))"
  by (induction xs arbitrary: w) (auto split: prod.splits)

lemma nearer_nearer: "nearer s (nearer t obj) = nearer (t + s) obj"
  by (simp add: nearer_def algebra_simps)

lemma keepObject_nearer_mono: "0 \<le> s \<Longrightarrow> keepObject (nearer (t + s) obj) \<Longrightarrow> keepObject (nearer t obj)"
  by (simp add: keepObject_def nearer_def)

lemma kept_nearer:
  "0 \<le> s \<Longrightarrow>
     filter keepObject (map (nearer s) (filter keepObject (map (nearer t) xs)))
       = filter keepObject (map (nearer (t + s)) xs)"
  by (induction xs) (auto simp: nearer_nearer dest: keepObject_nearer_mono)

lemma reached_crossing:
  "0 \<le> s \<Longrightarrow>
     reached t xs + crossing s (filter keepObject (map (nearer t) xs)) = reached (t + s) xs"
  by (induction xs)
    (auto simp: reached_def crossing_def nearer_def keepObject_def objDepth_def)

lemma waiting_nearer: "fresh l obj \<Longrightarrow> waiting l (nearer t obj)"
  by (simp add: fresh_def waiting_def nearer_def)

lemma inWindow_nearer: "inWindow s (nearer t obj) = inWindow (t + s) obj"
  by (simp add: inWindow_def nearer_def zOverlap_def algebra_simps)

lemma window_kept:
  "list_ex (inWindow s) (filter keepObject (map (nearer t) xs)) \<Longrightarrow> list_ex (inWindow (t + s)) xs"
  by (auto simp: list_ex_iff inWindow_nearer)

lemma frame_kept:
  assumes "\<forall>ob \<in> set xs. fresh l ob"
    and "GAME_SPEED_START \<le> fst f" "fst f \<le> GAME_SPEED_MAX"
    and "list_ex (inWindow (t + fst f)) xs \<longrightarrow> \<bar>lane (snd f) - real_of_int l\<bar> < 0.6"
    and "objectsRef w = filter keepObject (map (nearer t) xs)"
    and "coinsRef w = c + int (reached t xs)"
  shows "frame f w =
     (w\<lparr>speedRef := fst f, playerRef := snd f, coinsRef := c + int (reached (t + fst f) xs),
         objectsRef := filter keepObject (map (nearer (t + fst f)) xs)\<rparr>,
      coinSignals c (reached t xs) (reached (t + fst f) xs))"
proof -
  have s: "0 \<le> fst f" "fst f \<le> 60"
    using assms(2,3) by (simp_all add: GAME_SPEED_START_def GAME_SPEED_MAX_def)
  have near: "list_ex (inWindow (fst f)) (filter keepObject (map (nearer t) xs)) \<longrightarrow>
      \<bar>lane (snd f) - real_of_int l\<bar> < 0.6"
    using assms(4) window_kept [of "fst f" t xs] by blast
  have w: "\<forall>ob \<in> set (filter keepObject (map (nearer t) xs)). waiting l ob"
    using assms(1) by (auto simp: waiting_nearer)
  from objectLoop_waiting [OF w s near, of "scoreRef w" "distanceRef w" c "reached t xs"]
  show ?thesis
    using assms(5,6) reached_crossing [OF s(1), of t xs] kept_nearer [OF s(1), of t xs]
    by (simp add: frame_def collisions_def collide_def Let_def)
qed

lemma staysInLane_travel: "staysInLane l xs t fs \<Longrightarrow> 0 \<le> sum_list (map fst fs)"
  by (induction fs arbitrary: t) (auto simp: GAME_SPEED_START_def)

lemma frames_kept:
  assumes "\<forall>ob \<in> set xs. fresh l ob" "staysInLane l xs t fs"
    and "objectsRef w = filter keepObject (map (nearer t) xs)"
    and "coinsRef w = c + int (reached t xs)"
  shows "coinsRef (fst (frames fs w)) = c + int (reached (t + sum_list (map fst fs)) xs) \<and>
         objectsRef (fst (frames fs w))
           = filter keepObject (map (nearer (t + sum_list (map fst fs))) xs) \<and>
         snd (frames fs w)
           = coinSignals c (reached t xs) (reached (t + sum_list (map fst fs)) xs)"
  using assms(2-4)
proof (induction fs arbitrary: w t)
  case Nil
  then show ?case by simp
next
  case (Cons f fs)
  have f: "GAME_SPEED_START \<le> fst f" "fst f \<le> GAME_SPEED_MAX"
    "list_ex (inWindow (t + fst f)) xs \<longrightarrow> \<bar>lane (snd f) - real_of_int l\<bar> < 0.6"
    and fs: "staysInLane l xs (t + fst f) fs"
    using Cons.prems(1) by simp_all
  have s: "0 \<le> fst f"
    using f(1) by (simp add: GAME_SPEED_START_def)
  note one = frame_kept [OF assms(1) f Cons.prems(2,3)]
  have mono: "reached t xs \<le> reached (t + fst f) xs"
    using reached_crossing [OF s, of t xs] by simp
  have "0 \<le> sum_list (map fst fs)"
    using fs by (rule staysInLane_travel)
  then have mono2: "reached (t + fst f) xs \<le> reached (t + fst f + sum_list (map fst fs)) xs"
    using reached_crossing [of "sum_list (map fst fs)" "t + fst f" xs] by simp
  have o1: "objectsRef (fst (frame f w)) = filter keepObject (map (nearer (t + fst f)) xs)"
    and c1: "coinsRef (fst (frame f w)) = c + int (reached (t + fst f) xs)"
    and s1: "snd (frame f w) = coinSignals c (reached t xs) (reached (t + fst f) xs)"
    by (simp_all add: one)
  from Cons.IH [OF fs o1 c1] s1
  show ?case
    using coinSignals_append [OF mono mono2, of c]
    by (simp add: add.assoc case_prod_beta)
qed

lemma spawnObject_coins:
  "pickType rnd = COIN \<Longrightarrow> spawnObject rnd [] = coinLine rnd (pickLane rnd)"
  by (simp add: spawnObject_def tooClose_def Let_def)

lemma coinLine_fresh: "\<forall>ob \<in> set (coinLine rnd l). fresh l ob"
  by (auto simp: coinLine_def fresh_def)

lemma reached_coinLine:
  "reached t (coinLine rnd l) = length (filter (\<lambda>i. 3000 + real i * 150 < 50 + t) [0..<5])"
proof -
  have "(\<lambda>ob. z ob - t < 50) \<circ>
      (\<lambda>i. \<lparr>oid = rndId rnd i, olane = l, z = 3000 + real i * 150, otype = COIN, active = True\<rparr>)
      = (\<lambda>i. 3000 + real i * 150 < 50 + t)"
    by (auto simp: fun_eq_iff)
  then show ?thesis
    by (simp add: reached_def coinLine_def filter_map del: upt_Suc)
qed

lemma fresh_start:
  assumes "\<forall>ob \<in> set xs. fresh l ob"
  shows "filter keepObject (map (nearer 0) xs) = xs" and "reached 0 xs = 0"
  using assms
  by (induction xs)
    (auto simp: fresh_def nearer_def keepObject_def objDepth_def reached_def)

lemma update_frame:
  "update PLAYING rnd w =
     (case frame (speedRef (advance rnd w), playerRef (advance rnd w)) (advance rnd w) of
        (w2, sigs) \<Rightarrow> (w2, OnScoreUpdate (scoreRef (advance rnd w)) # sigs))"
  by (simp add: update_def frame_def Let_def)

text \<open>
  The pickup scenario on its own.  A pickup spawn into an empty live set places five active
  coins in the drawn lane at depths 3000, 3150, ..., 3600.  Let frames follow, each at a
  speed between the minimum and the maximum, with the player within the lane tolerance of
  that lane in every frame in which a coin of the line overlaps the player's depth
  interval.  Then the coin counter has grown by the number of coins whose spawn depth is
  less than 50 plus the distance travelled; one coins-changed signal was emitted for each
  of them, carrying the counts in order, and nothing else was signalled.
\<close>

theorem coin_line_collected:
  fixes rnd :: Rand and w :: World and fs :: "(real \<times> Player) list"
  defines "line \<equiv> coinLine rnd (pickLane rnd)"
  defines "travelled \<equiv> sum_list (map fst fs)"
  assumes "pickType rnd = COIN"
    and "objectsRef w = spawnObject rnd []"
    and "staysInLane (pickLane rnd) (spawnObject rnd []) 0 fs"
  shows "objectsRef w = line \<and>
         reached travelled line
           = length (filter (\<lambda>i. 3000 + real i * 150 < 50 + travelled) [0..<5]) \<and>
         coinsRef (fst (frames fs w)) = coinsRef w + int (reached travelled line) \<and>
         snd (frames fs w) = coinSignals (coinsRef w) 0 (reached travelled line) \<and>
         objectsRef (fst (frames fs w)) = filter keepObject (map (nearer travelled) line) \<and>
         (3550 < travelled \<longrightarrow>
            coinsRef (fst (frames fs w)) = coinsRef w + 5 \<and>
            snd (frames fs w) =
              [OnCoinsUpdate (coinsRef w + 1), OnCoinsUpdate (coinsRef w + 2),
               OnCoinsUpdate (coinsRef w + 3), OnCoinsUpdate (coinsRef w + 4),
               OnCoinsUpdate (coinsRef w + 5)])"
proof -
  have objs: "objectsRef w = line"
    using assms(3,4) by (simp add: spawnObject_coins line_def)
  have fr: "\<forall>ob \<in> set line. fresh (pickLane rnd) ob"
    by (simp add: line_def coinLine_fresh)
  have o0: "objectsRef w = filter keepObject (map (nearer 0) line)"
    and c0: "coinsRef w = coinsRef w + int (reached 0 line)"
    using fresh_start [OF fr] objs by simp_all
  have stay: "staysInLane (pickLane rnd) line 0 fs"
    using assms(3,5) by (simp add: spawnObject_coins line_def)
  from frames_kept [OF fr stay o0 c0]
  have run: "coinsRef (fst (frames fs w)) = coinsRef w + int (reached travelled line) \<and>
      objectsRef (fst (frames fs w)) = filter keepObject (map (nearer travelled) line) \<and>
      snd (frames fs w) = coinSignals (coinsRef w) 0 (reached travelled line)"
    using fresh_start(2) [OF fr] by (simp add: travelled_def)
  have cnt: "reached travelled line
      = length (filter (\<lambda>i. 3000 + real i * 150 < 50 + travelled) [0..<5])"
    by (simp add: line_def reached_coinLine)
  have all: "reached travelled line = 5" if "3550 < travelled"
    using that by (simp add: cnt upt_rec [of 0] upt_rec [of 1] upt_rec [of 2] upt_rec [of 3] upt_rec [of 4])
  have five: "coinSignals c 0 5 =
      [OnCoinsUpdate (c + 1), OnCoinsUpdate (c + 2), OnCoinsUpdate (c + 3),
       OnCoinsUpdate (c + 4), OnCoinsUpdate (c + 5)]" for c
  proof -
    have "[Suc 0..<6] = [1, 2, 3, 4, 5]"
      by (simp add: upt_rec)
    then show ?thesis
      by (simp add: coinSignals_def)
  qed
  from objs cnt run all five show ?thesis
    by simp
qed

theorem coin_line_collected_witness:
  "pickType coinRand = COIN \<and> pickLane coinRand = CENTER \<and>
   staysInLane (pickLane coinRand) (spawnObject coinRand []) 0 (replicate 60 (60, initialPlayer)) \<and>
   coinsRef (fst (frames (replicate 60 (60, initialPlayer))
       (initialWorld\<lparr>objectsRef := spawnObject coinRand []\<rparr>))) = 5 \<and>
   snd (frames (replicate 60 (60, initialPlayer))
       (initialWorld\<lparr>objectsRef := spawnObject coinRand []\<rparr>))
     = [OnCoinsUpdate 1, OnCoinsUpdate 2, OnCoinsUpdate 3, OnCoinsUpdate 4, OnCoinsUpdate 5]"
proof -
  have ty: "pickType coinRand = COIN" and ln: "pickLane coinRand = CENTER"
    by (simp_all add: pickType_def pickLane_def coinRand_def lanes_def)
  have stay: "staysInLane (pickLane coinRand) objs t (replicate n (60, initialPlayer))" for objs t n
    by (induction n arbitrary: t)
      (simp_all add: ln CENTER_def initialPlayer_def GAME_SPEED_START_def GAME_SPEED_MAX_def)
  have objs: "objectsRef (initialWorld\<lparr>objectsRef := spawnObject coinRand []\<rparr>)
      = spawnObject coinRand []"
    by simp
  have far: "3550 < sum_list (map fst (replicate 60 (60 :: real, initialPlayer)))"
    by (simp add: sum_list_replicate)
  have c0: "coinsRef (initialWorld\<lparr>objectsRef := objs\<rparr>) = 0" for objs
    by (simp add: initialWorld_def)
  from coin_line_collected [OF ty objs stay [of "spawnObject coinRand []" 0 60]] far
  have "coinsRef (fst (frames (replicate 60 (60, initialPlayer))
       (initialWorld\<lparr>objectsRef := spawnObject coinRand []\<rparr>)))
     = coinsRef (initialWorld\<lparr>objectsRef := spawnObject coinRand []\<rparr>) + 5 \<and>
   snd (frames (replicate 60 (60, initialPlayer))
       (initialWorld\<lparr>objectsRef := spawnObject coinRand []\<rparr>))
     = [OnCoinsUpdate (coinsRef (initialWorld\<lparr>objectsRef := spawnObject coinRand []\<rparr>) + 1),
        OnCoinsUpdate (coinsRef (initialWorld\<lparr>objectsRef := spawnObject coinRand []\<rparr>) + 2),
        OnCoinsUpdate (coinsRef (initialWorld\<lparr>objectsRef := spawnObject coinRand []\<rparr>) + 3),
        OnCoinsUpdate (coinsRef (initialWorld\<lparr>objectsRef := spawnObject coinRand []\<rparr>) + 4),
        OnCoinsUpdate (coinsRef (initialWorld\<lparr>objectsRef := spawnObject coinRand []\<rparr>) + 5)]"
    by blast
  then have "coinsRef (fst (frames (replicate 60 (60, initialPlayer))
       (initialWorld\<lparr>objectsRef := spawnObject coinRand []\<rparr>))) = 5 \<and>
   snd (frames (replicate 60 (60, initialPlayer))
       (initialWorld\<lparr>objectsRef := spawnObject coinRand []\<rparr>))
     = [OnCoinsUpdate 1, OnCoinsUpdate 2, OnCoinsUpdate 3, OnCoinsUpdate 4, OnCoinsUpdate 5]"
    by (simp add: c0)
  with ty ln stay show ?thesis
    by blast
qed

section \<open>A line of pickups in a run\<close>

lemma isGameOver_shift [simp]: "isGameOver (shiftSignal k sg) = isGameOver sg"
  by (cases sg) simp_all

lemma isCoinsUpdate_shift [simp]: "isCoinsUpdate (shiftSignal k sg) = isCoinsUpdate sg"
  by (cases sg) simp_all

lemma filter_shift_gameOver:
  "(filter isGameOver (map (shiftSignal k) sgs) = []) = (filter isGameOver sgs = [])"
  by (induction sgs) auto

lemma count_shift_coins:
  "length (filter isCoinsUpdate (map (shiftSignal k) sgs)) = length (filter isCoinsUpdate sgs)"
  by (induction sgs) auto

lemma processObject_shift:
  "processObject s p sc d (c + k) obj =
     (case processObject s p sc d c obj of
        (obj1, c1, sg, ret) \<Rightarrow> (obj1, c1 + k, map (shiftSignal k) sg, ret))"
  by (simp add: processObject_def Let_def)

lemma objectLoop_shift:
  "objectLoop s p sc d (c + k) xs =
     \<lparr>returned = returned (objectLoop s p sc d c xs),
      coinsOut = coinsOut (objectLoop s p sc d c xs) + k,
      signals = map (shiftSignal k) (signals (objectLoop s p sc d c xs)),
      array = array (objectLoop s p sc d c xs),
      activeObjects = activeObjects (objectLoop s p sc d c xs)\<rparr>"
proof (induction xs arbitrary: c)
  case Nil
  show ?case by simp
next
  case (Cons x xs)
  obtain x1 c1 sg rt where px: "processObject s p sc d c x = (x1, c1, sg, rt)"
    by (cases "processObject s p sc d c x") auto
  have px': "processObject s p sc d (c + k) x = (x1, c1 + k, map (shiftSignal k) sg, rt)"
    by (simp add: processObject_shift px)
  show ?case
  proof (cases rt)
    case True
    with px px' show ?thesis by simp
  next
    case False
    with px px' Cons.IH [of c1] show ?thesis
      by (simp add: Let_def)
  qed
qed

lemma objectLoop_quiet: 
  "(filter isGameOver (signals (objectLoop s p sc d c xs)) = []) = (\<not> returned (objectLoop s p sc d c xs))"
  by (simp add: objectLoop_gameOvers)

lemma isCoinsUpdate_shift_comp [simp]: "isCoinsUpdate \<circ> shiftSignal k = isCoinsUpdate"
  by (simp add: fun_eq_iff)

lemma isGameOver_shift_comp [simp]: "isGameOver \<circ> shiftSignal k = isGameOver"
  by (simp add: fun_eq_iff)

lemma coinSignals_count: "length (filter isCoinsUpdate (coinSignals c m n)) = n - m"
  by (auto simp: coinSignals_def filter_map comp_def)

lemma coinSignals_quiet: "filter isGameOver (coinSignals c m n) = []"
  by (simp add: coinSignals_def filter_map comp_def)

lemma objectLoop_with_line:
  fixes A K B :: "GameObject list"
  defines "LA \<equiv> \<lambda>s p sc d c. objectLoop s p sc d c A"
  defines "LB \<equiv> \<lambda>s p sc d c. objectLoop s p sc d (coinsOut (LA s p sc d c)) B"
  assumes line: "\<forall>ob \<in> set K. waiting l ob" and s: "0 \<le> s" "s \<le> 60"
    and near: "list_ex (inWindow s) K \<longrightarrow> \<bar>lane p - real_of_int l\<bar> < 0.6"
    and quiet: "\<not> returned (objectLoop s p sc d (c + int m) (A @ K @ B))"
  shows "\<not> returned (objectLoop s p sc d c (A @ B)) \<and>
         coinsOut (objectLoop s p sc d (c + int m) (A @ K @ B))
           = coinsOut (objectLoop s p sc d c (A @ B)) + int (m + crossing s K) \<and>
         activeObjects (objectLoop s p sc d (c + int m) (A @ K @ B))
           = activeObjects (LA s p sc d c) @ filter keepObject (map (nearer s) K)
               @ activeObjects (LB s p sc d c) \<and>
         activeObjects (objectLoop s p sc d c (A @ B))
           = activeObjects (LA s p sc d c) @ activeObjects (LB s p sc d c) \<and>
         length (filter isCoinsUpdate (signals (objectLoop s p sc d (c + int m) (A @ K @ B))))
           = length (filter isCoinsUpdate (signals (objectLoop s p sc d c (A @ B))))
               + crossing s K"
proof -
  let ?a = "objectLoop s p sc d c A"
  let ?b = "objectLoop s p sc d (coinsOut ?a) B"
  have a': "objectLoop s p sc d (c + int m) A =
      \<lparr>returned = returned ?a, coinsOut = coinsOut ?a + int m,
       signals = map (shiftSignal (int m)) (signals ?a), array = array ?a,
       activeObjects = activeObjects ?a\<rparr>"
    by (rule objectLoop_shift)
  have ra: "\<not> returned ?a"
    using quiet by (auto simp: objectLoop_append [of s p sc d "c + int m" A] a' Let_def)
  have k: "objectLoop s p sc d (coinsOut ?a + int m) K =
      \<lparr>returned = False, coinsOut = coinsOut ?a + int (m + crossing s K),
       signals = coinSignals (coinsOut ?a) m (m + crossing s K), array = map (nearer s) K,
       activeObjects = filter keepObject (map (nearer s) K)\<rparr>"
    by (rule objectLoop_waiting [OF line s near])
  have b': "objectLoop s p sc d (coinsOut ?a + int (m + crossing s K)) B =
      \<lparr>returned = returned ?b, coinsOut = coinsOut ?b + int (m + crossing s K),
       signals = map (shiftSignal (int (m + crossing s K))) (signals ?b), array = array ?b,
       activeObjects = activeObjects ?b\<rparr>"
    by (rule objectLoop_shift)
  have whole: "objectLoop s p sc d (c + int m) (A @ K @ B) =
      \<lparr>returned = returned ?b, coinsOut = coinsOut ?b + int (m + crossing s K),
       signals = map (shiftSignal (int m)) (signals ?a)
         @ coinSignals (coinsOut ?a) m (m + crossing s K)
         @ map (shiftSignal (int (m + crossing s K))) (signals ?b),
       array = array ?a @ map (nearer s) K @ array ?b,
       activeObjects = activeObjects ?a @ filter keepObject (map (nearer s) K)
         @ activeObjects ?b\<rparr>"
    using ra
    by (simp add: objectLoop_append [of s p sc d "c + int m" A]
        objectLoop_append [of s p sc d "coinsOut ?a + int m" K] a' k b' Let_def
        del: of_nat_add)
  have plain: "objectLoop s p sc d c (A @ B) =
      \<lparr>returned = returned ?b, coinsOut = coinsOut ?b, signals = signals ?a @ signals ?b,
       array = array ?a @ array ?b, activeObjects = activeObjects ?a @ activeObjects ?b\<rparr>"
    using ra by (simp add: objectLoop_append [of s p sc d c A] Let_def)
  from quiet have "\<not> returned ?b"
    by (simp add: whole)
  then show ?thesis
    by (simp add: whole plain LA_def LB_def count_shift_coins coinSignals_count del: of_nat_add)
qed

lemma spawnObject_spawned: "spawnObject rnd objs = objs @ spawned rnd objs"
  by (simp add: spawned_def spawnObject_def Let_def)

lemma tooClose_coins:
  "\<forall>ob \<in> set K. otype ob = COIN \<Longrightarrow> tooClose l (A @ K @ B) = tooClose l (A @ B)"
  by (auto simp: tooClose_iff)

lemma spawned_coins:
  "\<forall>ob \<in> set K. otype ob = COIN \<Longrightarrow> spawned rnd (A @ K @ B) = spawned rnd (A @ B)"
  using tooClose_coins [of K "pickLane rnd" A B]
  by (simp add: spawned_def spawnObject_def Let_def)

lemma lineAt_coins: "\<forall>ob \<in> set line. fresh l ob \<Longrightarrow> \<forall>ob \<in> set (lineAt line t). otype ob = COIN"
  by (auto simp: lineAt_def fresh_def nearer_def)

lemma lineIn_advance:
  assumes "lineIn line t wL w0" "\<forall>ob \<in> set line. fresh l ob"
  shows "lineIn line t (advance rnd wL) (advance rnd w0)"
proof -
  from assms(1) obtain A B where ab: "objectsRef w0 = A @ B"
    and wl: "wL = w0\<lparr>coinsRef := coinsRef w0 + int (reached t line),
                objectsRef := A @ lineAt line t @ B\<rparr>"
    by (auto simp: lineIn_def)
  have sp: "spawned rnd (A @ lineAt line t @ B) = spawned rnd (A @ B)"
    by (rule spawned_coins [OF lineAt_coins [OF assms(2)]])
  let ?due = "(frameCountRef w0 + 1) mod spawnRate (min GAME_SPEED_MAX (speedRef w0 + 0.015)) = 0"
  let ?B = "if ?due then B @ spawned rnd (A @ B) else B"
  have o0: "objectsRef (advance rnd w0) = A @ ?B"
    by (simp add: advance_def ab Let_def spawnObject_spawned)
  have "advance rnd wL = (advance rnd w0)\<lparr>coinsRef := coinsRef (advance rnd w0) + int (reached t line),
      objectsRef := A @ lineAt line t @ ?B\<rparr>"
    by (simp add: advance_def wl ab Let_def spawnObject_spawned sp)
  with o0 show ?thesis
    unfolding lineIn_def by blast
qed

lemma lineIn_fields:
  "lineIn line t wL w0 \<Longrightarrow>
     playerRef wL = playerRef w0 \<and> speedRef wL = speedRef w0 \<and> scoreRef wL = scoreRef w0 \<and>
     distanceRef wL = distanceRef w0 \<and> frameCountRef wL = frameCountRef w0 \<and>
     coinsRef wL = coinsRef w0 + int (reached t line)"
  by (auto simp: lineIn_def)

lemma lineIn_collisions:
  assumes sim: "lineIn line t wL w0" and fr: "\<forall>ob \<in> set line. fresh l ob"
    and s: "0 \<le> speedRef w0" "speedRef w0 \<le> 60"
    and near: "list_ex (inWindow (t + speedRef w0)) line \<longrightarrow>
        \<bar>lane (playerRef w0) - real_of_int l\<bar> < 0.6"
    and quiet: "filter isGameOver (snd (collisions wL)) = []"
  shows "lineIn line (t + speedRef w0) (fst (collisions wL)) (fst (collisions w0)) \<and>
         filter isGameOver (snd (collisions w0)) = [] \<and>
         length (filter isCoinsUpdate (snd (collisions wL))) + reached t line
           = length (filter isCoinsUpdate (snd (collisions w0))) + reached (t + speedRef w0) line"
proof -
  from sim obtain A B where ab: "objectsRef w0 = A @ B"
    and wl: "wL = w0\<lparr>coinsRef := coinsRef w0 + int (reached t line),
                objectsRef := A @ lineAt line t @ B\<rparr>"
    by (auto simp: lineIn_def)
  let ?s = "speedRef w0" and ?p = "playerRef w0" and ?sc = "scoreRef w0" and ?d = "distanceRef w0"
    and ?c = "coinsRef w0" and ?m = "reached t line"
  let ?L = "objectLoop ?s ?p ?sc ?d (?c + int ?m) (A @ lineAt line t @ B)"
  let ?M = "objectLoop ?s ?p ?sc ?d ?c (A @ B)"
  have cl: "collide wL = ?L" and c0: "collide w0 = ?M"
    by (simp_all add: collide_def wl ab)
  have w: "\<forall>ob \<in> set (lineAt line t). waiting l ob"
    using fr by (auto simp: lineAt_def waiting_nearer)
  have n: "list_ex (inWindow ?s) (lineAt line t) \<longrightarrow> \<bar>lane ?p - real_of_int l\<bar> < 0.6"
    using near window_kept [of ?s t line] by (auto simp: lineAt_def)
  have q: "\<not> returned ?L"
    using quiet by (simp add: collisions_def Let_def cl objectLoop_gameOvers split: if_splits)
  note both = objectLoop_with_line [OF w s n q]
  have travel: "filter keepObject (map (nearer ?s) (lineAt line t)) = lineAt line (t + ?s)"
    using kept_nearer [OF s(1), of t line] by (simp add: lineAt_def)
  have cnt: "?m + crossing ?s (lineAt line t) = reached (t + ?s) line"
    using reached_crossing [OF s(1), of t line] by (simp add: lineAt_def)
  have q0: "\<not> returned ?M"
    using both by simp
  have f0: "fst (collisions w0) = w0\<lparr>coinsRef := coinsOut ?M, objectsRef := activeObjects ?M\<rparr>"
    using q0 by (simp add: collisions_def Let_def c0)
  have "fst (collisions wL) = wL\<lparr>coinsRef := coinsOut ?L, objectsRef := activeObjects ?L\<rparr>"
    using q by (simp add: collisions_def Let_def cl)
  also have "\<dots> = w0\<lparr>coinsRef := coinsOut ?M + int (reached (t + ?s) line),
      objectsRef := activeObjects (objectLoop ?s ?p ?sc ?d ?c A) @ lineAt line (t + ?s)
        @ activeObjects (objectLoop ?s ?p ?sc ?d
            (coinsOut (objectLoop ?s ?p ?sc ?d ?c A)) B)\<rparr>"
    using both by (simp add: wl travel cnt del: of_nat_add)
  finally have fl: "fst (collisions wL) = w0\<lparr>coinsRef := coinsOut ?M + int (reached (t + ?s) line),
      objectsRef := activeObjects (objectLoop ?s ?p ?sc ?d ?c A) @ lineAt line (t + ?s)
        @ activeObjects (objectLoop ?s ?p ?sc ?d
            (coinsOut (objectLoop ?s ?p ?sc ?d ?c A)) B)\<rparr>" .
  have a0: "activeObjects ?M = activeObjects (objectLoop ?s ?p ?sc ?d ?c A)
        @ activeObjects (objectLoop ?s ?p ?sc ?d (coinsOut (objectLoop ?s ?p ?sc ?d ?c A)) B)"
    using both by simp
  have "lineIn line (t + ?s) (fst (collisions wL)) (fst (collisions w0))"
    unfolding lineIn_def
    by (rule exI [of _ "activeObjects (objectLoop ?s ?p ?sc ?d ?c A)"],
        rule exI [of _ "activeObjects (objectLoop ?s ?p ?sc ?d
            (coinsOut (objectLoop ?s ?p ?sc ?d ?c A)) B)"])
      (simp add: f0 fl a0)
  moreover have "filter isGameOver (snd (collisions w0)) = []"
    using q0 by (simp add: collisions_def Let_def c0 objectLoop_gameOvers)
  moreover have "length (filter isCoinsUpdate (snd (collisions wL))) + ?m
      = length (filter isCoinsUpdate (snd (collisions w0))) + reached (t + ?s) line"
    using both cnt by (simp add: collisions_def Let_def cl c0)
  ultimately show ?thesis
    by blast
qed

lemma lineIn_player:
  assumes "lineIn line t wL w0"
  shows "lineIn line t (wL\<lparr>playerRef := p\<rparr>) (w0\<lparr>playerRef := p\<rparr>)"
proof -
  from assms obtain A B where ab: "objectsRef w0 = A @ B"
    and wl: "wL = w0\<lparr>coinsRef := coinsRef w0 + int (reached t line),
                objectsRef := A @ lineAt line t @ B\<rparr>"
    by (auto simp: lineIn_def)
  show ?thesis
    unfolding lineIn_def
    by (rule exI [of _ A], rule exI [of _ B]) (simp add: ab wl)
qed

lemma speedRef_advance: "speedRef (advance rnd w) = min GAME_SPEED_MAX (speedRef w + 0.015)"
  by (simp add: advance_def Let_def)

lemma lineIn_update:
  assumes sim: "lineIn line t wL w0" and fr: "\<forall>ob \<in> set line. fresh l ob"
    and s: "0 \<le> speedRef w0"
    and near: "list_ex (inWindow (t + speedRef (advance rnd wL))) line \<longrightarrow>
        \<bar>lane (playerRef (advance rnd wL)) - real_of_int l\<bar> < 0.6"
    and quiet: "filter isGameOver (snd (update PLAYING rnd wL)) = []"
  shows "lineIn line (t + speedRef (advance rnd wL)) (fst (update PLAYING rnd wL))
           (fst (update PLAYING rnd w0)) \<and>
         filter isGameOver (snd (update PLAYING rnd w0)) = [] \<and>
         length (filter isCoinsUpdate (snd (update PLAYING rnd wL))) + reached t line
           = length (filter isCoinsUpdate (snd (update PLAYING rnd w0)))
               + reached (t + speedRef (advance rnd wL)) line \<and>
         0 \<le> speedRef (fst (update PLAYING rnd w0))"
proof -
  note adv = lineIn_advance [OF sim fr, of rnd]
  note eq = lineIn_fields [OF adv]
  have s1: "0 \<le> speedRef (advance rnd w0)" "speedRef (advance rnd w0) \<le> 60"
    using s by (simp_all add: speedRef_advance GAME_SPEED_MAX_def)
  have n1: "list_ex (inWindow (t + speedRef (advance rnd w0))) line \<longrightarrow>
      \<bar>lane (playerRef (advance rnd w0)) - real_of_int l\<bar> < 0.6"
    using near eq by simp
  have q1: "filter isGameOver (snd (collisions (advance rnd wL))) = []"
    using quiet by (simp add: update_def Let_def case_prod_beta)
  from lineIn_collisions [OF adv fr s1 n1 q1] eq s1(1) show ?thesis
    by (simp add: update_def Let_def case_prod_beta collisions_def)
qed

lemma reached_mono: "0 \<le> s \<Longrightarrow> reached t xs \<le> reached (t + s) xs"
  using reached_crossing [of s t xs] by simp

lemma lineIn_run:
  assumes fr: "\<forall>ob \<in> set line. fresh l ob"
  shows "lineIn line t wL w0 \<Longrightarrow> 0 \<le> speedRef w0 \<Longrightarrow> keepsLane l line t inputs wL \<Longrightarrow>
     filter isGameOver (snd (run inputs wL)) = [] \<Longrightarrow>
     lineIn line (t + travel inputs wL) (fst (run inputs wL)) (fst (run inputs w0)) \<and>
     filter isGameOver (snd (run inputs w0)) = [] \<and>
     length (filter isCoinsUpdate (snd (run inputs wL))) + reached t line
       = length (filter isCoinsUpdate (snd (run inputs w0)))
           + reached (t + travel inputs wL) line"
proof (induction inputs arbitrary: wL w0 t)
  case Nil
  then show ?case by simp
next
  case (Cons i rest)
  note sim = Cons.prems(1) and s = Cons.prems(2) and keeps = Cons.prems(3)
  have q1: "filter isGameOver (snd (stepInput i wL)) = []"
    and q2: "filter isGameOver (snd (run rest (fst (stepInput i wL)))) = []"
    using Cons.prems(4) by (simp_all add: case_prod_beta)
  show ?case
  proof (cases "\<exists>rnd. i = Frame PLAYING rnd")
    case True
    then obtain rnd where i: "i = Frame PLAYING rnd"
      by blast
    let ?dt = "speedRef (advance rnd wL)"
    have near: "list_ex (inWindow (t + ?dt)) line \<longrightarrow>
        \<bar>lane (playerRef (advance rnd wL)) - real_of_int l\<bar> < 0.6"
      and keeps': "keepsLane l line (t + ?dt) rest (fst (update PLAYING rnd wL))"
      using keeps by (simp_all add: i)
    have qu: "filter isGameOver (snd (update PLAYING rnd wL)) = []"
      using q1 by (simp add: i)
    note one = lineIn_update [OF sim fr s near qu]
    have q2': "filter isGameOver (snd (run rest (fst (update PLAYING rnd wL)))) = []"
      using q2 by (simp add: i)
    from one have sim1: "lineIn line (t + ?dt) (fst (update PLAYING rnd wL))
        (fst (update PLAYING rnd w0))"
      and s1: "0 \<le> speedRef (fst (update PLAYING rnd w0))"
      by simp_all
    note ih = Cons.IH [OF sim1 s1 keeps' q2']
    from one ih show ?thesis
      by (simp add: i case_prod_beta add.assoc)
  next
    case False
    have same: "fst (stepInput i wL) = wL\<lparr>playerRef := playerRef (fst (stepInput i wL))\<rparr>"
      "fst (stepInput i w0) = w0\<lparr>playerRef := playerRef (fst (stepInput i wL))\<rparr>"
      "snd (stepInput i wL) = []" "snd (stepInput i w0) = []"
      "travel (i # rest) wL = travel rest (fst (stepInput i wL))"
      "keepsLane l line t (i # rest) wL = keepsLane l line t rest (fst (stepInput i wL))"
      using False lineIn_fields [OF sim]
      by (cases i; cases "\<exists>gs rnd. i = Frame gs rnd"; auto simp: update_def)+
    have sim1: "lineIn line t (fst (stepInput i wL)) (fst (stepInput i w0))"
      using lineIn_player [OF sim, of "playerRef (fst (stepInput i wL))"] same(1,2) by simp
    have s1: "0 \<le> speedRef (fst (stepInput i w0))"
      using s same(2) by (metis World.select_convs(3) World.surjective World.update_convs(1))
    have keeps': "keepsLane l line t rest (fst (stepInput i wL))"
      using keeps same(6) by simp
    note ih = Cons.IH [OF sim1 s1 keeps' q2]
    from ih same show ?thesis
      by (simp add: case_prod_beta)
  qed
qed

lemma spawn_places_line:
  assumes "(frameCountRef w + 1) mod spawnRate (min GAME_SPEED_MAX (speedRef w + 0.015)) = 0"
    and "pickType rnd = COIN" and "\<not> tooClose (pickLane rnd) (objectsRef w)"
  shows "objectsRef (advance rnd w) = objectsRef w @ coinLine rnd (pickLane rnd)"
  using assms by (simp add: advance_def spawnObject_def Let_def)

text \<open>
  A line of coins that the spawner places is carried through the rest of the step and
  through the inputs that follow: the run is the run in which the spawner placed nothing,
  with the line added.
\<close>

lemma line_in_run:
  assumes due: "(frameCountRef w + 1) mod spawnRate (min GAME_SPEED_MAX (speedRef w + 0.015)) = 0"
    and coin: "pickType rnd = COIN"
    and free: "\<not> tooClose (pickLane rnd) (objectsRef w)"
    and speed: "0 \<le> speedRef w"
    and keeps: "keepsLane (pickLane rnd) (coinLine rnd (pickLane rnd)) 0
                  (Frame PLAYING rnd # inputs) w"
    and quiet: "filter isGameOver (snd (run (Frame PLAYING rnd # inputs) w)) = []"
  shows "lineIn (coinLine rnd (pickLane rnd)) (travel (Frame PLAYING rnd # inputs) w)
           (fst (run (Frame PLAYING rnd # inputs) w)) (fst (runUnspawned rnd inputs w)) \<and>
         length (filter isCoinsUpdate (snd (run (Frame PLAYING rnd # inputs) w)))
           = length (filter isCoinsUpdate (snd (runUnspawned rnd inputs w)))
               + reached (travel (Frame PLAYING rnd # inputs) w) (coinLine rnd (pickLane rnd)) \<and>
         filter isGameOver (snd (runUnspawned rnd inputs w)) = []"
proof -
  define line where "line = coinLine rnd (pickLane rnd)"
  define travelled where "travelled = travel (Frame PLAYING rnd # inputs) w"
  let ?w1 = "advance rnd w" and ?v1 = "withoutSpawn rnd w"
  let ?dt = "speedRef (advance rnd w)"
  have fr: "\<forall>ob \<in> set line. fresh (pickLane rnd) ob"
    by (simp add: line_def coinLine_fresh)
  have placed: "objectsRef ?w1 = objectsRef w @ line"
    using spawn_places_line [OF due coin free] by (simp add: line_def)
  have sim0: "lineIn line 0 ?w1 ?v1"
    unfolding lineIn_def
    by (rule exI [of _ "objectsRef w"], rule exI [of _ "[]"])
      (simp add: withoutSpawn_def lineAt_def fresh_start [OF fr] placed [symmetric])
  have s1: "0 \<le> speedRef ?v1" "speedRef ?v1 \<le> 60"
    using speed by (simp_all add: withoutSpawn_def speedRef_advance GAME_SPEED_MAX_def)
  have eq: "speedRef ?v1 = ?dt" "playerRef ?v1 = playerRef ?w1"
    by (simp_all add: withoutSpawn_def)
  have near: "list_ex (inWindow (0 + speedRef ?v1)) line \<longrightarrow>
      \<bar>lane (playerRef ?v1) - real_of_int (pickLane rnd)\<bar> < 0.6"
    using keeps by (simp add: eq line_def)
  have keeps': "keepsLane (pickLane rnd) line (0 + speedRef ?v1) inputs (fst (collisions ?w1))"
    using keeps by (simp add: eq line_def update_def Let_def case_prod_beta)
  have q1: "filter isGameOver (snd (collisions ?w1)) = []"
    and q2: "filter isGameOver (snd (run inputs (fst (collisions ?w1)))) = []"
    using quiet by (simp_all add: update_def Let_def case_prod_beta)
  note first = lineIn_collisions [OF sim0 fr s1 near q1]
  from first have sim1: "lineIn line (0 + speedRef ?v1) (fst (collisions ?w1)) (fst (collisions ?v1))"
    by simp
  have s2: "0 \<le> speedRef (fst (collisions ?v1))"
    using s1(1) by (simp add: collisions_def Let_def)
  note rest = lineIn_run [OF fr sim1 s2 keeps' q2]
  have tr: "travelled = 0 + speedRef ?v1 + travel inputs (fst (collisions ?w1))"
    by (simp add: travelled_def eq update_def Let_def case_prod_beta)
  have r0: "reached 0 line = 0"
    by (rule fresh_start(2) [OF fr])
  have lhs: "fst (run (Frame PLAYING rnd # inputs) w) = fst (run inputs (fst (collisions ?w1)))"
    "snd (run (Frame PLAYING rnd # inputs) w)
       = OnScoreUpdate (scoreRef ?w1) # snd (collisions ?w1) @ snd (run inputs (fst (collisions ?w1)))"
    by (simp_all add: update_def Let_def case_prod_beta)
  have rhs: "fst (runUnspawned rnd inputs w) = fst (run inputs (fst (collisions ?v1)))"
    "snd (runUnspawned rnd inputs w)
       = OnScoreUpdate (scoreRef ?v1) # snd (collisions ?v1) @ snd (run inputs (fst (collisions ?v1)))"
    by (simp_all add: runUnspawned_def case_prod_beta)
  have sim: "lineIn line travelled (fst (run (Frame PLAYING rnd # inputs) w))
      (fst (runUnspawned rnd inputs w))"
    unfolding lhs rhs tr using rest by simp
  have count: "length (filter isCoinsUpdate (snd (run (Frame PLAYING rnd # inputs) w)))
      = length (filter isCoinsUpdate (snd (runUnspawned rnd inputs w))) + reached travelled line"
    unfolding lhs rhs tr using first rest r0 by simp
  have qr: "filter isGameOver (snd (runUnspawned rnd inputs w)) = []"
    unfolding rhs using first rest by simp
  show ?thesis
    using sim count qr unfolding line_def travelled_def by simp
qed

text \<open>
  C5.  Take a step in the playing state in which the spawner is due, draws a pickup and
  finds the lane free: it pushes five active coins at depths 3000, 3150, ..., 3600 in the
  drawn lane.  Let any inputs follow (key presses, touches, frames; the speed of a frame is
  what the code makes it, at most the maximum), such that the run emits no game-over
  signal, and such that the player is within the lane tolerance of that lane in every
  frame in which a coin of the line overlaps the player's depth interval.

  Then, compared with the same step and inputs had the spawner placed nothing, the coin
  counter is higher by the number of coins of the line whose spawn depth is less than 50
  plus the distance travelled (the nearest ones first), and as many coins-changed signals
  more were emitted; nothing else differs but the line itself, which is in the live set up
  to the cleanup, each coin inactive exactly when it has been reached.  Once the distance
  travelled exceeds 3550, that is exactly 5 coins and 5 signals.
\<close>

theorem coin_line_contributes:
  fixes rnd :: Rand and w :: World and inputs :: "Input list"
  defines "line \<equiv> coinLine rnd (pickLane rnd)"
  defines "travelled \<equiv> travel (Frame PLAYING rnd # inputs) w"
  assumes due: "(frameCountRef w + 1) mod spawnRate (min GAME_SPEED_MAX (speedRef w + 0.015)) = 0"
    and coin: "pickType rnd = COIN"
    and free: "\<not> tooClose (pickLane rnd) (objectsRef w)"
    and speed: "0 \<le> speedRef w"
    and keeps: "keepsLane (pickLane rnd) (coinLine rnd (pickLane rnd)) 0
                  (Frame PLAYING rnd # inputs) w"
    and quiet: "filter isGameOver (snd (run (Frame PLAYING rnd # inputs) w)) = []"
  shows "objectsRef (advance rnd w) = objectsRef w @ line \<and>
         reached travelled line
           = length (filter (\<lambda>i. 3000 + real i * 150 < 50 + travelled) [0..<5]) \<and>
         coinsRef (fst (run (Frame PLAYING rnd # inputs) w))
           = coinsRef (fst (runUnspawned rnd inputs w)) + int (reached travelled line) \<and>
         length (filter isCoinsUpdate (snd (run (Frame PLAYING rnd # inputs) w)))
           = length (filter isCoinsUpdate (snd (runUnspawned rnd inputs w)))
               + reached travelled line \<and>
         filter isGameOver (snd (runUnspawned rnd inputs w)) = [] \<and>
         lineIn line travelled (fst (run (Frame PLAYING rnd # inputs) w))
           (fst (runUnspawned rnd inputs w)) \<and>
         (3550 < travelled \<longrightarrow>
            coinsRef (fst (run (Frame PLAYING rnd # inputs) w))
              = coinsRef (fst (runUnspawned rnd inputs w)) + 5 \<and>
            length (filter isCoinsUpdate (snd (run (Frame PLAYING rnd # inputs) w)))
              = length (filter isCoinsUpdate (snd (runUnspawned rnd inputs w))) + 5)"
proof -
  note core = line_in_run [OF due coin free speed keeps quiet, folded line_def travelled_def]
  from core have sim: "lineIn line travelled (fst (run (Frame PLAYING rnd # inputs) w))
      (fst (runUnspawned rnd inputs w))"
    by simp
  from core have count: "length (filter isCoinsUpdate (snd (run (Frame PLAYING rnd # inputs) w)))
      = length (filter isCoinsUpdate (snd (runUnspawned rnd inputs w))) + reached travelled line"
    by simp
  from core have qr: "filter isGameOver (snd (runUnspawned rnd inputs w)) = []"
    by simp
  have placed: "objectsRef (advance rnd w) = objectsRef w @ line"
    using spawn_places_line [OF due coin free] by (simp add: line_def)
  have coins: "coinsRef (fst (run (Frame PLAYING rnd # inputs) w))
      = coinsRef (fst (runUnspawned rnd inputs w)) + int (reached travelled line)"
    using lineIn_fields [OF sim] by simp
  have cnt: "reached travelled line
      = length (filter (\<lambda>i. 3000 + real i * 150 < 50 + travelled) [0..<5])"
    by (simp add: line_def reached_coinLine)
  have all: "reached travelled line = 5" if "3550 < travelled"
    using that
    by (simp add: cnt upt_rec [of 0] upt_rec [of 1] upt_rec [of 2] upt_rec [of 3] upt_rec [of 4])
  from placed cnt coins count qr sim all show ?thesis
    by simp
qed

lemma playerPhysics_initial: "playerPhysics initialPlayer = initialPlayer"
  by (simp add: playerPhysics_def laneSmoothing_def verticalIntegration_def rollStep_def
      initialPlayer_def CENTER_def Let_def)

lemma objectLoop_coins_only:
  "list_all (\<lambda>ob. otype ob = COIN) xs \<Longrightarrow>
     \<not> returned (objectLoop s p sc d c xs) \<and>
     list_all (\<lambda>ob. otype ob = COIN) (activeObjects (objectLoop s p sc d c xs))"
proof (induction xs arbitrary: c)
  case Nil
  show ?case by simp
next
  case (Cons x xs)
  have x: "otype x = COIN" and rest: "list_all (\<lambda>ob. otype ob = COIN) xs"
    using Cons.prems by simp_all
  obtain x1 c1 sg where px: "processObject s p sc d c x = (x1, c1, sg, False)" "otype x1 = COIN"
    using x by (cases "processObject s p sc d c x") (auto simp: processObject_def Let_def split: if_splits)
  from Cons.IH [OF rest, of c1] px show ?case
    by (simp add: Let_def)
qed

lemma spawnObject_coins_only:
  "pickType r = COIN \<Longrightarrow> list_all (\<lambda>ob. otype ob = COIN) xs \<Longrightarrow>
     list_all (\<lambda>ob. otype ob = COIN) (spawnObject r xs)"
  by (auto simp: spawnObject_def coinLine_def Let_def list_all_iff)

lemma calm_update:
  assumes "calm w" "pickType r = COIN"
  shows "calm (fst (update PLAYING r w)) \<and>
         filter isGameOver (snd (update PLAYING r w)) = [] \<and>
         speedRef (advance r w) = 60 \<and> playerRef (advance r w) = initialPlayer"
proof -
  have p: "playerRef (advance r w) = initialPlayer" and s: "speedRef (advance r w) = 60"
    using assms(1)
    by (simp_all add: calm_def advance_def Let_def playerPhysics_initial GAME_SPEED_MAX_def)
  have o: "list_all (\<lambda>ob. otype ob = COIN) (objectsRef (advance r w))"
    using assms spawnObject_coins_only [of r "objectsRef w"]
    by (simp add: calm_def advance_def Let_def)
  note loop = objectLoop_coins_only [OF o, of "speedRef (advance r w)" "playerRef (advance r w)"
      "scoreRef (advance r w)" "distanceRef (advance r w)" "coinsRef (advance r w)"]
  have "calm (fst (update PLAYING r w))"
    using loop p s by (simp add: calm_def update_def collisions_def collide_def Let_def)
  moreover have "filter isGameOver (snd (update PLAYING r w)) = []"
    using loop by (simp add: update_def collisions_def collide_def Let_def objectLoop_gameOvers)
  ultimately show ?thesis
    using p s by simp
qed

lemma calm_collisions:
  assumes "calm w"
  shows "calm (fst (collisions w)) \<and> filter isGameOver (snd (collisions w)) = []"
proof -
  have o: "list_all (\<lambda>ob. otype ob = COIN) (objectsRef w)"
    using assms by (simp add: calm_def)
  note loop = objectLoop_coins_only [OF o, of "speedRef w" "playerRef w" "scoreRef w"
      "distanceRef w" "coinsRef w"]
  show ?thesis
    using loop assms by (simp add: calm_def collisions_def collide_def Let_def objectLoop_gameOvers)
qed

lemma calm_run:
  assumes r: "pickType r = COIN"
  shows "calm w \<Longrightarrow>
     travel (replicate n (Frame PLAYING r)) w = 60 * real n \<and>
     filter isGameOver (snd (run (replicate n (Frame PLAYING r)) w)) = [] \<and>
     keepsLane CENTER line t (replicate n (Frame PLAYING r)) w"
proof (induction n arbitrary: w t)
  case 0
  show ?case by simp
next
  case (Suc n)
  note one = calm_update [OF Suc.prems r]
  from one have c1: "calm (fst (update PLAYING r w))"
    by simp
  from Suc.IH [OF c1, of "t + 60"] one show ?case
    by (simp add: case_prod_beta initialPlayer_def CENTER_def algebra_simps)
qed

lemma calm_inLane:
  assumes r: "pickType r = COIN"
  shows "calm w \<Longrightarrow> inLane CENTER (replicate n (Frame PLAYING r)) w"
proof (induction n arbitrary: w)
  case 0
  show ?case by simp
next
  case (Suc n)
  note one = calm_update [OF Suc.prems r]
  from one have c1: "calm (fst (update PLAYING r w))"
    by simp
  from Suc.IH [OF c1] one show ?case
    by (simp add: initialPlayer_def CENTER_def)
qed

lemma objectLoop_aside:
  "list_all (\<lambda>ob. olane ob = LEFT) xs \<Longrightarrow>
     coinsOut (objectLoop s initialPlayer sc d c xs) = c \<and>
     signals (objectLoop s initialPlayer sc d c xs) = [] \<and>
     \<not> returned (objectLoop s initialPlayer sc d c xs) \<and>
     list_all (\<lambda>ob. olane ob = LEFT) (activeObjects (objectLoop s initialPlayer sc d c xs))"
proof (induction xs)
  case Nil
  show ?case by simp
next
  case (Cons x xs)
  have "processObject s initialPlayer sc d c x = (x\<lparr>z := z x - s\<rparr>, c, [], False)"
    using Cons.prems
    by (simp add: processObject_def laneNear_def initialPlayer_def LEFT_def Let_def)
  with Cons show ?case
    by (simp add: Let_def)
qed

lemma aside_update:
  assumes "aside w" "pickLane r = LEFT"
  shows "aside (fst (update PLAYING r w)) \<and>
         coinsRef (fst (update PLAYING r w)) = coinsRef w \<and>
         filter isCoinsUpdate (snd (update PLAYING r w)) = []"
proof -
  have p: "playerRef (advance r w) = initialPlayer" and s: "speedRef (advance r w) = 60"
    and c: "coinsRef (advance r w) = coinsRef w"
    using assms(1)
    by (simp_all add: aside_def advance_def Let_def playerPhysics_initial GAME_SPEED_MAX_def)
  have o: "list_all (\<lambda>ob. olane ob = LEFT) (objectsRef (advance r w))"
    using assms
    by (auto simp: aside_def advance_def spawnObject_def coinLine_def Let_def list_all_iff)
  note loop = objectLoop_aside [OF o, of "speedRef (advance r w)"
      "scoreRef (advance r w)" "distanceRef (advance r w)" "coinsRef (advance r w)"]
  show ?thesis
    using loop p s c by (simp add: aside_def update_def collisions_def collide_def Let_def)
qed

lemma aside_run:
  assumes r: "pickLane r = LEFT"
  shows "aside w \<Longrightarrow>
     coinsRef (fst (run (replicate n (Frame PLAYING r)) w)) = coinsRef w \<and>
     filter isCoinsUpdate (snd (run (replicate n (Frame PLAYING r)) w)) = []"
proof (induction n arbitrary: w)
  case 0
  show ?case by simp
next
  case (Suc n)
  note one = aside_update [OF Suc.prems r]
  from one have c1: "aside (fst (update PLAYING r w))"
    by simp
  from Suc.IH [OF c1] one show ?case
    by (simp add: case_prod_beta)
qed

theorem coin_line_contributes_witness:
  "(frameCountRef lineStart + 1) mod spawnRate (min GAME_SPEED_MAX (speedRef lineStart + 0.015)) = 0 \<and>
   pickType coinRand = COIN \<and> pickLane coinRand = CENTER \<and>
   \<not> tooClose (pickLane coinRand) (objectsRef lineStart) \<and> 0 \<le> speedRef lineStart \<and>
   keepsLane (pickLane coinRand) (coinLine coinRand (pickLane coinRand)) 0
     (Frame PLAYING coinRand # replicate 59 (Frame PLAYING leftRand)) lineStart \<and>
   filter isGameOver
     (snd (run (Frame PLAYING coinRand # replicate 59 (Frame PLAYING leftRand)) lineStart)) = [] \<and>
   travel (Frame PLAYING coinRand # replicate 59 (Frame PLAYING leftRand)) lineStart = 3600 \<and>
   coinsRef (fst (runUnspawned coinRand (replicate 59 (Frame PLAYING leftRand)) lineStart)) = 0 \<and>
   coinsRef (fst (run (Frame PLAYING coinRand # replicate 59 (Frame PLAYING leftRand)) lineStart))
     = 5 \<and>
   length (filter isCoinsUpdate
     (snd (run (Frame PLAYING coinRand # replicate 59 (Frame PLAYING leftRand)) lineStart))) = 5"
proof -
  let ?rest = "replicate 59 (Frame PLAYING leftRand)"
  have due: "(frameCountRef lineStart + 1)
      mod spawnRate (min GAME_SPEED_MAX (speedRef lineStart + 0.015)) = 0"
    by (simp add: lineStart_def spawnRate_def GAME_SPEED_MAX_def)
  have ty: "pickType coinRand = COIN" "pickType leftRand = COIN"
    and ln: "pickLane coinRand = CENTER" "pickLane leftRand = LEFT"
    by (simp_all add: pickType_def pickLane_def coinRand_def leftRand_def lanes_def)
  have free: "\<not> tooClose (pickLane coinRand) (objectsRef lineStart)"
    and speed: "0 \<le> speedRef lineStart"
    by (simp_all add: tooClose_def lineStart_def)
  have c0: "calm lineStart"
    by (simp add: calm_def lineStart_def)
  note first = calm_update [OF c0 ty(1)]
  from first have c1: "calm (fst (update PLAYING coinRand lineStart))"
    by simp
  note rest = calm_run [OF ty(2) c1, of 59 "coinLine coinRand (pickLane coinRand)" 60]
  have keeps: "keepsLane (pickLane coinRand) (coinLine coinRand (pickLane coinRand)) 0
      (Frame PLAYING coinRand # ?rest) lineStart"
    using first rest by (simp add: ln initialPlayer_def CENTER_def)
  have quiet: "filter isGameOver (snd (run (Frame PLAYING coinRand # ?rest) lineStart)) = []"
    using first rest by (simp add: case_prod_beta)
  have far: "travel (Frame PLAYING coinRand # ?rest) lineStart = 3600"
    using first rest by simp
  have a0: "aside (fst (collisions (withoutSpawn coinRand lineStart)))"
    and z0: "coinsRef (fst (collisions (withoutSpawn coinRand lineStart))) = 0"
    and n0: "snd (collisions (withoutSpawn coinRand lineStart)) = []"
    by (simp_all add: aside_def withoutSpawn_def advance_def collisions_def collide_def lineStart_def
        playerPhysics_initial GAME_SPEED_MAX_def Let_def)
  note without = aside_run [OF ln(2) a0, of 59]
  have none: "coinsRef (fst (runUnspawned coinRand ?rest lineStart)) = 0"
    and nosig: "filter isCoinsUpdate (snd (runUnspawned coinRand ?rest lineStart)) = []"
    using without z0 n0 by (simp_all add: runUnspawned_def case_prod_beta)
  from coin_line_contributes [OF due ty(1) free speed keeps quiet] far none nosig
  have "coinsRef (fst (run (Frame PLAYING coinRand # ?rest) lineStart)) = 5 \<and>
      length (filter isCoinsUpdate (snd (run (Frame PLAYING coinRand # ?rest) lineStart))) = 5"
    by simp
  with due ty(1) ln(1) free speed keeps quiet far none show ?thesis
    by blast
qed

text \<open>
  The counter itself can rise by more than the line holds.  Here one coin of an earlier
  line is still ahead of the player, in the centre lane at depth 1000, when the spawner
  places a new line in that lane.  The player stays in the centre lane, nothing ends the
  run, and after sixty frames at full speed the new line has passed the player: the counter
  has gone from 0 to 6.
\<close>

theorem coin_ahead_counterexample:
  "(frameCountRef coinAhead + 1) mod spawnRate (min GAME_SPEED_MAX (speedRef coinAhead + 0.015)) = 0 \<and>
   pickType coinRand = COIN \<and> pickLane coinRand = CENTER \<and>
   \<not> tooClose (pickLane coinRand) (objectsRef coinAhead) \<and>
   objectsRef (advance coinRand coinAhead)
     = objectsRef coinAhead @ coinLine coinRand (pickLane coinRand) \<and>
   keepsLane (pickLane coinRand) (coinLine coinRand (pickLane coinRand)) 0
     (Frame PLAYING coinRand # replicate 59 (Frame PLAYING leftRand)) coinAhead \<and>
   inLane CENTER (Frame PLAYING coinRand # replicate 59 (Frame PLAYING leftRand)) coinAhead \<and>
   filter isGameOver
     (snd (run (Frame PLAYING coinRand # replicate 59 (Frame PLAYING leftRand)) coinAhead)) = [] \<and>
   travel (Frame PLAYING coinRand # replicate 59 (Frame PLAYING leftRand)) coinAhead = 3600 \<and>
   coinsRef coinAhead = 0 \<and>
   coinsRef (fst (run (Frame PLAYING coinRand # replicate 59 (Frame PLAYING leftRand)) coinAhead))
     = 6"
proof -
  let ?rest = "replicate 59 (Frame PLAYING leftRand)"
  have due: "(frameCountRef coinAhead + 1)
      mod spawnRate (min GAME_SPEED_MAX (speedRef coinAhead + 0.015)) = 0"
    by (simp add: coinAhead_def lineStart_def spawnRate_def GAME_SPEED_MAX_def)
  have ty: "pickType coinRand = COIN" "pickType leftRand = COIN"
    and ln: "pickLane coinRand = CENTER" "pickLane leftRand = LEFT"
    by (simp_all add: pickType_def pickLane_def coinRand_def leftRand_def lanes_def)
  have free: "\<not> tooClose (pickLane coinRand) (objectsRef coinAhead)"
    and speed: "0 \<le> speedRef coinAhead" and zero: "coinsRef coinAhead = 0"
    by (simp_all add: tooClose_def coinAhead_def lineStart_def aheadCoin_def)
  note placed = spawn_places_line [OF due ty(1) free]
  have c0: "calm coinAhead"
    by (simp add: calm_def coinAhead_def lineStart_def aheadCoin_def)
  note first = calm_update [OF c0 ty(1)]
  from first have c1: "calm (fst (update PLAYING coinRand coinAhead))"
    by simp
  note rest = calm_run [OF ty(2) c1, of 59 "coinLine coinRand (pickLane coinRand)" 60]
  have keeps: "keepsLane (pickLane coinRand) (coinLine coinRand (pickLane coinRand)) 0
      (Frame PLAYING coinRand # ?rest) coinAhead"
    using first rest by (simp add: ln initialPlayer_def CENTER_def)
  have stays: "inLane CENTER (Frame PLAYING coinRand # ?rest) coinAhead"
    using first calm_inLane [OF ty(2) c1, of 59] by (simp add: initialPlayer_def CENTER_def)
  have quiet: "filter isGameOver (snd (run (Frame PLAYING coinRand # ?rest) coinAhead)) = []"
    using first rest by (simp add: case_prod_beta)
  have far: "travel (Frame PLAYING coinRand # ?rest) coinAhead = 3600"
    using first rest by simp
  \<comment> \<open>without the new line, the run picks up the coin ahead\<close>
  let ?v1 = "withoutSpawn coinRand coinAhead" and ?v0 = "withoutSpawn coinRand lineStart"
  have fr: "\<forall>ob \<in> set [aheadCoin]. fresh CENTER ob"
    by (simp add: fresh_def aheadCoin_def)
  have sim0: "lineIn [aheadCoin] 0 ?v1 ?v0"
    unfolding lineIn_def
    by (rule exI [of _ "[]"], rule exI [of _ "[]"])
      (simp add: withoutSpawn_def advance_def coinAhead_def lineStart_def Let_def lineAt_def
        nearer_def keepObject_def objDepth_def aheadCoin_def reached_def)
  have cv1: "calm ?v1"
    by (simp add: calm_def withoutSpawn_def advance_def coinAhead_def lineStart_def Let_def
        aheadCoin_def playerPhysics_initial GAME_SPEED_MAX_def)
  have s1: "0 \<le> speedRef ?v0" "speedRef ?v0 \<le> 60" and sp: "speedRef ?v0 = 60"
    and pl: "playerRef ?v0 = initialPlayer"
    by (simp_all add: withoutSpawn_def advance_def lineStart_def Let_def GAME_SPEED_MAX_def
        playerPhysics_initial)
  have near: "list_ex (inWindow (0 + speedRef ?v0)) [aheadCoin] \<longrightarrow>
      \<bar>lane (playerRef ?v0) - real_of_int CENTER\<bar> < 0.6"
    by (simp add: pl initialPlayer_def CENTER_def)
  note cc = calm_collisions [OF cv1]
  from cc have q1: "filter isGameOver (snd (collisions ?v1)) = []"
    and c2: "calm (fst (collisions ?v1))"
    by simp_all
  note one = lineIn_collisions [OF sim0 fr s1 near q1]
  from one have sim1: "lineIn [aheadCoin] (0 + speedRef ?v0) (fst (collisions ?v1))
      (fst (collisions ?v0))"
    by simp
  have s2: "0 \<le> speedRef (fst (collisions ?v0))"
    using s1(1) by (simp add: collisions_def Let_def)
  note rest1 = calm_run [OF ty(2) c2, of 59 "[aheadCoin]" "0 + speedRef ?v0"]
  from rest1 have k2: "keepsLane CENTER [aheadCoin] (0 + speedRef ?v0) ?rest (fst (collisions ?v1))"
    and q2: "filter isGameOver (snd (run ?rest (fst (collisions ?v1)))) = []"
    and t2: "travel ?rest (fst (collisions ?v1)) = 60 * real (59 :: nat)"
    by simp_all
  note all = lineIn_run [OF fr sim1 s2 k2 q2]
  have a0: "aside (fst (collisions ?v0))"
    and z0: "coinsRef (fst (collisions ?v0)) = 0"
    by (simp_all add: aside_def withoutSpawn_def advance_def collisions_def collide_def lineStart_def
        playerPhysics_initial GAME_SPEED_MAX_def Let_def)
  note without = aside_run [OF ln(2) a0, of 59]
  have "reached (0 + speedRef ?v0 + travel ?rest (fst (collisions ?v1))) [aheadCoin] = 1"
    unfolding sp t2 by (simp add: reached_def aheadCoin_def)
  with all without z0 have one_more: "coinsRef (fst (run ?rest (fst (collisions ?v1)))) = 1"
    using lineIn_fields [of "[aheadCoin]" "0 + speedRef ?v0 + travel ?rest (fst (collisions ?v1))"
        "fst (run ?rest (fst (collisions ?v1)))" "fst (run ?rest (fst (collisions ?v0)))"]
    by simp
  have un: "coinsRef (fst (runUnspawned coinRand ?rest coinAhead)) = 1"
    using one_more by (simp add: runUnspawned_def case_prod_beta)
  \<comment> \<open>and the new line adds its five\<close>
  note core = line_in_run [OF due ty(1) free speed keeps quiet]
  from core have sim: "lineIn (coinLine coinRand (pickLane coinRand)) 3600
      (fst (run (Frame PLAYING coinRand # ?rest) coinAhead))
      (fst (runUnspawned coinRand ?rest coinAhead))"
    unfolding far by blast
  have five: "reached 3600 (coinLine coinRand (pickLane coinRand)) = 5"
    by (simp add: reached_coinLine upt_rec [of 0] upt_rec [of 1] upt_rec [of 2] upt_rec [of 3]
        upt_rec [of 4])
  have "coinsRef (fst (run (Frame PLAYING coinRand # ?rest) coinAhead)) = 6"
    using lineIn_fields [OF sim] un five by simp
  with due ty(1) ln(1) free placed keeps stays quiet far zero show ?thesis
    by blast
qed

section \<open>Repeating the renderer\<close>

lemma drawObject_not_coin:
  "otype obj \<noteq> COIN \<Longrightarrow> drawObject width height a obj = drawObject width height b obj"
  by (simp add: drawObject_def)

lemma drawObjects_clock:
  "\<forall>j < length (activeCoins objs). clock1 (k + j) = clock2 (k + j) \<Longrightarrow>
     drawObjects width height clock1 k objs = drawObjects width height clock2 k objs"
proof (induction objs arbitrary: k)
  case Nil
  show ?case by simp
next
  case (Cons obj rest)
  show ?case
  proof (cases "active obj \<and> otype obj = COIN")
    case True
    have here: "clock1 k = clock2 k"
      using Cons.prems [rule_format, of 0] True by (simp add: activeCoins_def)
    have "\<forall>j < length (activeCoins rest). clock1 (Suc k + j) = clock2 (Suc k + j)"
      using Cons.prems [rule_format, of "Suc j" for j] True by (simp add: activeCoins_def)
    from Cons.IH [OF this] here True show ?thesis
      by simp
  next
    case False
    have "\<forall>j < length (activeCoins rest). clock1 (k + j) = clock2 (k + j)"
      using Cons.prems False by (simp add: activeCoins_def)
    from Cons.IH [OF this] False show ?thesis
      using drawObject_not_coin [of obj width height "clock1 k" "clock2 k"] by auto
  qed
qed

lemma activeCoins_sorted:
  "length (activeCoins (sort_key f objs)) = length (activeCoins objs)"
  by (simp add: activeCoins_def filter_sort)

text \<open>
  C9, as the code has it.  For a fixed World State, run state and surface size, two calls
  of \<^verbatim>\<open>draw\<close> paint the same frame when the clock readings they take agree (one
  reading for each active coin drawn), so always when the live set holds no active coin;
  and \<^verbatim>\<open>draw\<close> leaves the refs as they are.
\<close>

theorem render_repeatable:
  assumes "\<forall>k < length (activeCoins (objectsRef w)). clock1 k = clock2 k"
  shows "fst (draw gameState width height clock1 w) = fst (draw gameState width height clock2 w) \<and>
         snd (draw gameState width height clock1 w) = w"
proof -
  have "\<forall>j < length (activeCoins (sort_key (\<lambda>ob. - z ob) (objectsRef w))).
      clock1 (0 + j) = clock2 (0 + j)"
    using assms by (simp add: activeCoins_sorted)
  from drawObjects_clock [OF this] show ?thesis
    by (simp add: draw_def Let_def)
qed

theorem render_repeatable_witness:
  "length (activeCoins (objectsRef (midRun initialPlayer [lowArch]))) = 0 \<and>
   fst (draw PLAYING 800 600 (steadyClock 0) (midRun initialPlayer [lowArch]))
     = fst (draw PLAYING 800 600 (steadyClock 100) (midRun initialPlayer [lowArch])) \<and>
   snd (draw PLAYING 800 600 (steadyClock 0) (midRun initialPlayer [lowArch]))
     = midRun initialPlayer [lowArch] \<and>
   length (activeCoins (objectsRef (midRun initialPlayer [freshCoin]))) = 1 \<and>
   steadyClock 5 0 = tickingClock 5 0 \<and>
   fst (draw PLAYING 800 600 (steadyClock 5) (midRun initialPlayer [freshCoin]))
     = fst (draw PLAYING 800 600 (tickingClock 5) (midRun initialPlayer [freshCoin]))"
proof -
  have none: "length (activeCoins (objectsRef (midRun initialPlayer [lowArch]))) = 0"
    and one: "length (activeCoins (objectsRef (midRun initialPlayer [freshCoin]))) = 1"
    and same: "steadyClock 5 0 = tickingClock 5 0"
    by (simp_all add: activeCoins_def midRun_def lowArch_def freshCoin_def steadyClock_def
        tickingClock_def)
  have a: "\<forall>k < length (activeCoins (objectsRef (midRun initialPlayer [lowArch]))).
      steadyClock 0 k = steadyClock 100 k"
    using none by simp
  have b: "\<forall>k < length (activeCoins (objectsRef (midRun initialPlayer [freshCoin]))).
      steadyClock 5 k = tickingClock 5 k"
    using one same by simp
  from render_repeatable [OF a, of PLAYING 800 600] render_repeatable [OF b, of PLAYING 800 600]
    none one same
  show ?thesis
    by blast
qed

lemma sin_one_pos: "0 < sin (1 :: real)"
  by (rule sin_gt_zero_02) simp_all

text \<open>
  The frame does depend on the clock: a coin is drawn as an ellipse whose width follows
  \<^verbatim>\<open>Math.sin(Date.now() / 100)\<close>.  On the same state, a call at time 0 and a call at
  time 100 differ.
\<close>

theorem render_clock_counterexample:
  "fst (draw MENU 800 600 (steadyClock 0) (midRun initialPlayer [freshCoin]))
     \<noteq> fst (draw MENU 800 600 (steadyClock 100) (midRun initialPlayer [freshCoin]))"
proof
  assume "fst (draw MENU 800 600 (steadyClock 0) (midRun initialPlayer [freshCoin]))
     = fst (draw MENU 800 600 (steadyClock 100) (midRun initialPlayer [freshCoin]))"
  then have "drawObject 800 600 0 freshCoin = drawObject 800 600 100 freshCoin"
    by (simp add: draw_def midRun_def freshCoin_def steadyClock_def)
  then have "\<bar>sin (1 :: real)\<bar> = 0"
    by (simp add: drawObject_def freshCoin_def project3D_def Let_def cameraZ_def perspective_def)
  with sin_one_pos show False
    by simp
qed

section \<open>Lane smoothing\<close>

text \<open>
  In the exact arithmetic of this model a smoothing step keeps the target and multiplies
  the remaining distance to it by 0.8.  What the step does to a double one unit in the last
  place from the target is a matter of rounding, which the model leaves out.
\<close>

lemma laneSmoothing_exact:
  "targetLane (laneSmoothing p) = targetLane p \<and>
   real_of_int (targetLane p) - lane (laneSmoothing p)
     = 0.8 * (real_of_int (targetLane p) - lane p)"
  by (simp add: laneSmoothing_def LANE_SPEED_def field_simps)

end
